theory Spec2Isabelle
  imports Main "HOL-Library.Sublist"
begin

section \<open>The two storage servers\<close>

text \<open>
  \<^verbatim>\<open>s2.c\<close> (PDF files, directory \<^verbatim>\<open>~/S2\<close>) and its sibling for ZIP files
  (directory \<^verbatim>\<open>~/S4\<close>) are the same program up to the owned extension, the name of
  the storage directory and the wording of the replies. The model takes the server as
  a parameter.
\<close>

datatype server = S2 | S4

fun owned_ext :: "server \<Rightarrow> string" where
  "owned_ext S2 = ''.pdf''"
| "owned_ext S4 = ''.zip''"

fun store_name :: "server \<Rightarrow> string" where
  "store_name S2 = ''S2''"
| "store_name S4 = ''S4''"

fun kind_name :: "server \<Rightarrow> string" where
  "kind_name S2 = ''PDF''"
| "kind_name S4 = ''ZIP''"

definition BUFFER_SIZE :: nat where
  "BUFFER_SIZE = 1024"

definition MAX_PATH_LEN :: nat where
  "MAX_PATH_LEN = 1024"

section \<open>C library functions on strings\<close>

text \<open>
  A C string is a \<open>string\<close> without the terminating NUL. \<open>snprintf n s\<close> is
  \<^verbatim>\<open>snprintf(buf, n, fmt, ...)\<close> where \<open>s\<close> is the fully formatted text: at most
  \<open>n - 1\<close> characters are stored.
\<close>

definition snprintf :: "nat \<Rightarrow> string \<Rightarrow> string" where
  "snprintf n s = take (n - 1) s"

text \<open>\<^verbatim>\<open>strncat(dst, src, n)\<close>: at most \<open>n\<close> characters of \<open>src\<close> are appended.\<close>

definition strncat :: "string \<Rightarrow> string \<Rightarrow> nat \<Rightarrow> string" where
  "strncat dst src n = dst @ take n src"

text \<open>\<^verbatim>\<open>strrchr(s, c)\<close>: the tail of \<open>s\<close> from the last occurrence of \<open>c\<close>, or NULL.\<close>

fun strrchr :: "string \<Rightarrow> char \<Rightarrow> string option" where
  "strrchr [] c = None"
| "strrchr (x # xs) c =
     (case strrchr xs c of
        Some r \<Rightarrow> Some r
      | None \<Rightarrow> if x = c then Some (x # xs) else None)"

text \<open>
  \<^verbatim>\<open>strtok(s, " ")\<close> on the rest of the buffer: leading blanks are skipped, the token
  runs to the next blank, which is overwritten by NUL; the scan resumes behind it.
\<close>

definition strtok :: "string \<Rightarrow> (string \<times> string) option" where
  "strtok s =
     (let s' = dropWhile (\<lambda>c. c = CHR '' '') s in
      if s' = [] then None
      else Some (takeWhile (\<lambda>c. c \<noteq> CHR '' '') s',
                 drop 1 (dropWhile (\<lambda>c. c \<noteq> CHR '' '') s')))"

text \<open>
  POSIX \<^verbatim>\<open>basename\<close> from \<^verbatim>\<open>libgen.h\<close>: trailing slashes are dropped, then the part
  behind the last slash is returned; the empty string gives \<^verbatim>\<open>"."\<close>, a string of
  slashes gives \<^verbatim>\<open>"/"\<close>.
\<close>

definition strip_slashes :: "string \<Rightarrow> string" where
  "strip_slashes s = rev (dropWhile (\<lambda>c. c = CHR ''/'') (rev s))"

definition basename :: "string \<Rightarrow> string" where
  "basename s =
     (if s = [] then ''.''
      else if strip_slashes s = [] then ''/''
      else rev (takeWhile (\<lambda>c. c \<noteq> CHR ''/'') (rev (strip_slashes s))))"

section \<open>The file system\<close>

text \<open>
  The file system is the operating system's, not the program's; the model keeps what
  the system calls of \<^verbatim>\<open>s2.c\<close> can observe. A node is a regular file (with its
  read permission and its bytes) or a directory. The file system is the list of its
  nodes under their absolute paths (lists of component names), in the order in which
  \<^verbatim>\<open>readdir\<close> presents them; the root directory is always there. The working
  directory of the server is taken to be the root, so a relative path is resolved
  like the absolute one.
\<close>

datatype node = File bool string | Dir

type_synonym path = "string list"

type_synonym filesystem = "(path \<times> node) list"

datatype errno = ENOENT | ENOTDIR | EEXIST | EISDIR | EINVAL | ENOTEMPTY | EACCES | EBUSY

definition node_at :: "filesystem \<Rightarrow> path \<Rightarrow> node option" where
  "node_at fs p = (if p = [] then Some Dir else map_of fs p)"

fun split_on :: "char \<Rightarrow> string \<Rightarrow> string list" where
  "split_on d [] = [[]]"
| "split_on d (c # cs) =
     (if c = d then [] # split_on d cs
      else (case split_on d cs of
              w # ws \<Rightarrow> (c # w) # ws
            | [] \<Rightarrow> [[c]]))"

text \<open>
  Path lookup, one component at a time: the current node must be a directory; an
  empty component and \<^verbatim>\<open>.\<close> stay, \<^verbatim>\<open>..\<close> goes up, a name must exist.
\<close>

fun walk :: "filesystem \<Rightarrow> path \<Rightarrow> string list \<Rightarrow> errno + path" where
  "walk fs cur [] = Inr cur"
| "walk fs cur (c # cs) =
     (case node_at fs cur of
        Some Dir \<Rightarrow>
          (if c = [] \<or> c = ''.'' then walk fs cur cs
           else if c = ''..'' then walk fs (butlast cur) cs
           else (case node_at fs (cur @ [c]) of
                   None \<Rightarrow> Inl ENOENT
                 | Some _ \<Rightarrow> walk fs (cur @ [c]) cs))
      | Some (File _ _) \<Rightarrow> Inl ENOTDIR
      | None \<Rightarrow> Inl ENOENT)"

definition resolve :: "filesystem \<Rightarrow> string \<Rightarrow> errno + path" where
  "resolve fs s = (if s = [] then Inl ENOENT else walk fs [] (split_on CHR ''/'' s))"

text \<open>\<^verbatim>\<open>stat\<close>: the node a path names, or failure.\<close>

definition stat :: "filesystem \<Rightarrow> string \<Rightarrow> node option" where
  "stat fs s = (case resolve fs s of Inl e \<Rightarrow> None | Inr p \<Rightarrow> node_at fs p)"

fun S_ISDIR :: "node \<Rightarrow> bool" where
  "S_ISDIR Dir = True"
| "S_ISDIR (File r bs) = False"

text \<open>
  The directory that is to hold a new entry, and the entry's name: trailing slashes
  are ignored, the rest of the path must lead to a directory.
\<close>

definition strip_empty :: "string list \<Rightarrow> string list" where
  "strip_empty cs = rev (dropWhile (\<lambda>c. c = []) (rev cs))"

definition parent_leaf :: "filesystem \<Rightarrow> string \<Rightarrow> errno + (path \<times> string)" where
  "parent_leaf fs s =
     (if s = [] then Inl ENOENT
      else let cs = strip_empty (split_on CHR ''/'' s) in
        if cs = [] then Inl EEXIST
        else (case walk fs [] (butlast cs) of
                Inl e \<Rightarrow> Inl e
              | Inr d \<Rightarrow>
                  (case node_at fs d of
                     Some Dir \<Rightarrow> Inr (d, last cs)
                   | Some (File _ _) \<Rightarrow> Inl ENOTDIR
                   | None \<Rightarrow> Inl ENOENT)))"

text \<open>\<^verbatim>\<open>mkdir(path, 0755)\<close>: the new file system and \<open>None\<close> for 0, or the errno.\<close>

definition mkdir :: "filesystem \<Rightarrow> string \<Rightarrow> filesystem \<times> errno option" where
  "mkdir fs s =
     (case parent_leaf fs s of
        Inl e \<Rightarrow> (fs, Some e)
      | Inr (d, c) \<Rightarrow>
          if c = ''.'' \<or> c = ''..'' then (fs, Some EEXIST)
          else if node_at fs (d @ [c]) \<noteq> None then (fs, Some EEXIST)
          else (fs @ [(d @ [c], Dir)], None))"

text \<open>
  \<^verbatim>\<open>rename(old, new)\<close>. A regular file replaces a regular file or takes a free
  name, never a directory; a directory moves with everything below it, onto a free
  name or an empty directory, and never into itself.
\<close>

definition move_file :: "path \<Rightarrow> path \<Rightarrow> filesystem \<Rightarrow> filesystem" where
  "move_file po pn fs =
     map (\<lambda>(q, n). if q = po then (pn, n) else (q, n)) (filter (\<lambda>(q, n). q \<noteq> pn) fs)"

definition move_tree :: "path \<Rightarrow> path \<Rightarrow> filesystem \<Rightarrow> filesystem" where
  "move_tree po pn fs =
     map (\<lambda>(q, n). if prefix po q then (pn @ drop (length po) q, n) else (q, n))
       (filter (\<lambda>(q, n). q \<noteq> pn) fs)"

definition has_children :: "filesystem \<Rightarrow> path \<Rightarrow> bool" where
  "has_children fs p = (filter (\<lambda>(q, n). q \<noteq> [] \<and> butlast q = p) fs \<noteq> [])"

definition rename :: "filesystem \<Rightarrow> string \<Rightarrow> string \<Rightarrow> filesystem \<times> errno option" where
  "rename fs old new =
     (case resolve fs old of
        Inl e \<Rightarrow> (fs, Some e)
      | Inr po \<Rightarrow>
          if po = [] then (fs, Some EBUSY)
          else (case parent_leaf fs new of
                  Inl e \<Rightarrow> (fs, Some (if e = EEXIST then EBUSY else e))
                | Inr (d, c) \<Rightarrow>
                    if c = ''.'' \<or> c = ''..'' then (fs, Some EBUSY)
                    else (case node_at fs po of
                            None \<Rightarrow> (fs, Some ENOENT)
                          | Some (File r bs) \<Rightarrow>
                              if last (split_on CHR ''/'' new) = [] then (fs, Some ENOTDIR)
                              else (case node_at fs (d @ [c]) of
                                      Some Dir \<Rightarrow> (fs, Some EISDIR)
                                    | _ \<Rightarrow> if po = d @ [c] then (fs, None)
                                           else (move_file po (d @ [c]) fs, None))
                          | Some Dir \<Rightarrow>
                              if po = d @ [c] then (fs, None)
                              else if prefix po (d @ [c]) then (fs, Some EINVAL)
                              else (case node_at fs (d @ [c]) of
                                      Some (File r bs) \<Rightarrow> (fs, Some ENOTDIR)
                                    | Some Dir \<Rightarrow>
                                        if has_children fs (d @ [c]) then (fs, Some ENOTEMPTY)
                                        else (move_tree po (d @ [c]) fs, None)
                                    | None \<Rightarrow> (move_tree po (d @ [c]) fs, None)))))"

text \<open>\<^verbatim>\<open>unlink(path)\<close> removes a regular file.\<close>

definition unlink :: "filesystem \<Rightarrow> string \<Rightarrow> filesystem \<times> errno option" where
  "unlink fs s =
     (case resolve fs s of
        Inl e \<Rightarrow> (fs, Some e)
      | Inr p \<Rightarrow>
          (case node_at fs p of
             Some (File r bs) \<Rightarrow> (filter (\<lambda>(q, n). q \<noteq> p) fs, None)
           | Some Dir \<Rightarrow> (fs, Some EISDIR)
           | None \<Rightarrow> (fs, Some ENOENT)))"

text \<open>
  \<^verbatim>\<open>opendir\<close> and the sequence of \<^verbatim>\<open>readdir\<close> results up to NULL: \<^verbatim>\<open>.\<close> and
  \<^verbatim>\<open>..\<close>, then the entries of the directory in the order of the file system.
\<close>

datatype d_type = DT_REG | DT_DIR | DT_UNKNOWN

type_synonym dirent = "string \<times> d_type"

fun d_type_of :: "node \<Rightarrow> d_type" where
  "d_type_of (File r bs) = DT_REG"
| "d_type_of Dir = DT_DIR"

definition opendir :: "filesystem \<Rightarrow> string \<Rightarrow> dirent list option" where
  "opendir fs s =
     (case resolve fs s of
        Inl e \<Rightarrow> None
      | Inr p \<Rightarrow>
          (case node_at fs p of
             Some Dir \<Rightarrow>
               Some ((''.'', DT_DIR) # (''..'', DT_DIR) #
                     map (\<lambda>(q, n). (last q, d_type_of n))
                       (filter (\<lambda>(q, n). q \<noteq> [] \<and> butlast q = p) fs))
           | _ \<Rightarrow> None))"

text \<open>
  \<^verbatim>\<open>open(path, O_RDONLY)\<close>: a descriptor holds the open node and the file offset. A
  file without read permission cannot be opened; a directory can, but not be read.
\<close>

datatype fd = Fd node nat

definition open_rdonly :: "filesystem \<Rightarrow> string \<Rightarrow> fd option" where
  "open_rdonly fs s =
     (case stat fs s of
        None \<Rightarrow> None
      | Some (File r bs) \<Rightarrow> if r then Some (Fd (File r bs) 0) else None
      | Some Dir \<Rightarrow> Some (Fd Dir 0))"

section \<open>The environment of one connection\<close>

text \<open>
  What the program is given from outside: \<^verbatim>\<open>getenv("HOME")\<close>, the size \<^verbatim>\<open>stat\<close>
  reports for a directory, and the outcome of the \<^verbatim>\<open>find | tar\<close> pipeline run by
  \<^verbatim>\<open>system\<close> (its exit status, and the archive it leaves, if any).
\<close>

record env =
  HOME :: string
  dir_size :: nat
  tar_status :: int
  tar_bytes :: "string option"

text \<open>
  The state a command works on: the file system, the bytes delivered to the peer on
  \<^verbatim>\<open>client_sock\<close> so far, and the outcomes of the coming transfers on the socket and
  of the coming reads from files. An outcome is a full transfer, a transfer of at
  most so many bytes, or an error; when none is listed, the transfer is full.
\<close>

datatype io = Full | Partial nat | Fail

record world =
  disk :: filesystem
  sent :: string
  sock_io :: "io list"
  file_io :: "io list"

fun next_io :: "io list \<Rightarrow> io \<times> io list" where
  "next_io [] = (Full, [])"
| "next_io (x # xs) = (x, xs)"

text \<open>\<^verbatim>\<open>write(client_sock, buf, n)\<close> with \<open>buf\<close> the \<open>n\<close> bytes to be written.\<close>

definition write_sock :: "world \<Rightarrow> string \<Rightarrow> world \<times> int" where
  "write_sock w buf =
     (case next_io (sock_io w) of
        (Full, r) \<Rightarrow> (w\<lparr>sent := sent w @ buf, sock_io := r\<rparr>, int (length buf))
      | (Partial k, r) \<Rightarrow>
          (w\<lparr>sent := sent w @ take k buf, sock_io := r\<rparr>, int (min k (length buf)))
      | (Fail, r) \<Rightarrow> (w\<lparr>sock_io := r\<rparr>, - 1))"

text \<open>\<^verbatim>\<open>read(fd, buffer, count)\<close>: the new descriptor, the return value, the bytes read.\<close>

fun read_fd :: "world \<Rightarrow> fd \<Rightarrow> nat \<Rightarrow> world \<times> fd \<times> int \<times> string" where
  "read_fd w (Fd Dir off) count = (w, Fd Dir off, - 1, [])"
| "read_fd w (Fd (File r bs) off) count =
     (case next_io (file_io w) of
        (Full, rest) \<Rightarrow>
          (w\<lparr>file_io := rest\<rparr>, Fd (File r bs) (off + length (take count (drop off bs))),
           int (length (take count (drop off bs))), take count (drop off bs))
      | (Partial k, rest) \<Rightarrow>
          (w\<lparr>file_io := rest\<rparr>,
           Fd (File r bs) (off + length (take (min k count) (drop off bs))),
           int (length (take (min k count) (drop off bs))), take (min k count) (drop off bs))
      | (Fail, rest) \<Rightarrow> (w\<lparr>file_io := rest\<rparr>, Fd (File r bs) off, - 1, []))"

text \<open>\<^verbatim>\<open>sendfile(client_sock, fd, NULL, count)\<close>: file bytes go straight to the socket.\<close>

fun sendfile :: "world \<Rightarrow> fd \<Rightarrow> nat \<Rightarrow> world \<times> fd \<times> int" where
  "sendfile w (Fd Dir off) count = (w, Fd Dir off, - 1)"
| "sendfile w (Fd (File r bs) off) count =
     (case next_io (sock_io w) of
        (Full, rest) \<Rightarrow>
          (w\<lparr>sent := sent w @ take count (drop off bs), sock_io := rest\<rparr>,
           Fd (File r bs) (off + length (take count (drop off bs))),
           int (length (take count (drop off bs))))
      | (Partial k, rest) \<Rightarrow>
          (w\<lparr>sent := sent w @ take (min k count) (drop off bs), sock_io := rest\<rparr>,
           Fd (File r bs) (off + length (take (min k count) (drop off bs))),
           int (length (take (min k count) (drop off bs))))
      | (Fail, rest) \<Rightarrow> (w\<lparr>sock_io := rest\<rparr>, Fd (File r bs) off, - 1))"

text \<open>\<^verbatim>\<open>st_size\<close> of a node.\<close>

fun st_size :: "env \<Rightarrow> node \<Rightarrow> nat" where
  "st_size e (File r bs) = length bs"
| "st_size e Dir = dir_size e"

text \<open>
  The eight bytes of an \<^verbatim>\<open>off_t\<close> as \<^verbatim>\<open>write(client_sock, &st.st_size, sizeof(off_t))\<close>
  sends them on x86-64 Linux: least significant byte first.
\<close>

definition size_frame :: "nat \<Rightarrow> string" where
  "size_frame n = map (\<lambda>i. char_of (n div 256 ^ i)) [0..<8]"

text \<open>
  \<^verbatim>\<open>system(tar_cmd)\<close> in \<^verbatim>\<open>download_tar\<close>: the pipeline is not part of the program,
  and the command line built from \<open>s2_dir\<close> is not interpreted. The call leaves the
  archive the environment names at \<^verbatim>\<open>/tmp/pdffiles.tar\<close> (if any, and if \<^verbatim>\<open>/tmp\<close> is a
  directory and the name is not taken by a directory) and returns the status the
  environment names.
\<close>

definition system_tar :: "env \<Rightarrow> filesystem \<Rightarrow> string \<Rightarrow> filesystem \<times> int" where
  "system_tar e fs s2_dir =
     ((case tar_bytes e of
         None \<Rightarrow> fs
       | Some bs \<Rightarrow>
           (case parent_leaf fs ''/tmp/pdffiles.tar'' of
              Inl err \<Rightarrow> fs
            | Inr (d, c) \<Rightarrow>
                (case node_at fs (d @ [c]) of
                   Some Dir \<Rightarrow> fs
                 | _ \<Rightarrow> filter (\<lambda>(q, n). q \<noteq> d @ [c]) fs @ [(d @ [c], File True bs)]))),
      tar_status e)"

section \<open>Path translation\<close>

text \<open>
  Every operation builds the local path with
  \<^verbatim>\<open>snprintf(s2_path, MAX_PATH_LEN, "%s/S2%s", getenv("HOME"), filename + 3)\<close>;
  \<^verbatim>\<open>display_filenames\<close> puts the empty string for the bare \<^verbatim>\<open>~S1\<close>. \<open>drop 3\<close> is
  \<^verbatim>\<open>filename + 3\<close> for an argument of at least three characters, which is what the
  gateway sends.
\<close>

definition storage_root :: "env \<Rightarrow> server \<Rightarrow> string" where
  "storage_root e sv = HOME e @ ''/'' @ store_name sv"

definition s2_path :: "env \<Rightarrow> server \<Rightarrow> string \<Rightarrow> string" where
  "s2_path e sv filename =
     snprintf MAX_PATH_LEN (HOME e @ ''/'' @ store_name sv @ drop 3 filename)"

definition s2_path_list :: "env \<Rightarrow> server \<Rightarrow> string \<Rightarrow> string" where
  "s2_path_list e sv pathname =
     snprintf MAX_PATH_LEN
       (HOME e @ ''/'' @ store_name sv @ (if pathname = ''~S1'' then [] else drop 3 pathname))"

section \<open>create_directory_tree\<close>

text \<open>
  The loop of \<^verbatim>\<open>create_directory_tree\<close>: \<open>pre\<close> is \<^verbatim>\<open>tmp\<close> up to \<^verbatim>\<open>p\<close>, the third
  argument is the rest from \<^verbatim>\<open>p\<close>. At each slash the prefix is created; after the
  loop the whole path is. \<^verbatim>\<open>mkdir(tmp, 0755) && errno != EEXIST\<close> is \<open>mkdir_failed\<close>.
\<close>

definition mkdir_failed :: "errno option \<Rightarrow> bool" where
  "mkdir_failed r = (case r of None \<Rightarrow> False | Some e \<Rightarrow> e \<noteq> EEXIST)"

fun cdt_loop :: "filesystem \<Rightarrow> string \<Rightarrow> string \<Rightarrow> filesystem \<times> int" where
  "cdt_loop fs pre [] =
     (case mkdir fs pre of (fs', r) \<Rightarrow> if mkdir_failed r then (fs', - 1) else (fs', 0))"
| "cdt_loop fs pre (c # cs) =
     (if c = CHR ''/'' then
        (case mkdir fs pre of
           (fs', r) \<Rightarrow> if mkdir_failed r then (fs', - 1) else cdt_loop fs' (pre @ [c]) cs)
      else cdt_loop fs (pre @ [c]) cs)"

definition create_directory_tree :: "filesystem \<Rightarrow> string \<Rightarrow> filesystem \<times> int" where
  "create_directory_tree fs path =
     (case snprintf MAX_PATH_LEN path of
        [] \<Rightarrow> cdt_loop fs [] []
      | c # cs \<Rightarrow> if c = CHR ''/'' then cdt_loop fs [c] cs else cdt_loop fs [] (c # cs))"

text \<open>
  For the statement of what \<^verbatim>\<open>create_directory_tree\<close> achieves: the path segments,
  that is the arguments of the \<^verbatim>\<open>mkdir\<close> calls of a run in which none fails, from
  root to leaf.
\<close>

fun mkdir_targets :: "string \<Rightarrow> string \<Rightarrow> string list" where
  "mkdir_targets pre [] = [pre]"
| "mkdir_targets pre (c # cs) =
     (if c = CHR ''/'' then pre # mkdir_targets (pre @ [c]) cs
      else mkdir_targets (pre @ [c]) cs)"

definition segments :: "string \<Rightarrow> string list" where
  "segments path =
     (case snprintf MAX_PATH_LEN path of
        [] \<Rightarrow> mkdir_targets [] []
      | c # cs \<Rightarrow> if c = CHR ''/'' then mkdir_targets [c] cs else mkdir_targets [] (c # cs))"

section \<open>upload_file, remove_file\<close>

definition upload_file :: "env \<Rightarrow> server \<Rightarrow> world \<Rightarrow> string \<Rightarrow> string \<Rightarrow> world \<times> int" where
  "upload_file e sv w filename dest_path =
     (if strrchr filename CHR ''.'' \<noteq> Some (owned_ext sv) then
        (fst (write_sock w
           (take 31 (''ERROR: '' @ store_name sv @ '' only handles '' @ kind_name sv @ '' files''))),
         - 1)
      else
        (case create_directory_tree (disk w) (s2_path e sv dest_path) of
           (fs1, rc) \<Rightarrow>
             if rc < 0 then
               (fst (write_sock (w\<lparr>disk := fs1\<rparr>) (take 32 ''ERROR: Failed to create directory'')),
                - 1)
             else
               (case rename fs1 filename
                       (snprintf MAX_PATH_LEN (s2_path e sv dest_path @ ''/'' @ basename filename)) of
                  (fs2, Some err) \<Rightarrow>
                    (fst (write_sock (w\<lparr>disk := fs2\<rparr>)
                       (take 38 ''ERROR: Failed to move file to destination'')),
                     - 1)
                | (fs2, None) \<Rightarrow>
                    (fst (write_sock (w\<lparr>disk := fs2\<rparr>)
                       (take 30 (''SUCCESS: '' @ kind_name sv @ '' file stored in '' @ store_name sv))),
                     0))))"

definition remove_file :: "env \<Rightarrow> server \<Rightarrow> world \<Rightarrow> string \<Rightarrow> world \<times> int" where
  "remove_file e sv w filename =
     (case unlink (disk w) (s2_path e sv filename) of
        (fs1, None) \<Rightarrow>
          (fst (write_sock (w\<lparr>disk := fs1\<rparr>)
             (take 32 (''SUCCESS: '' @ kind_name sv @ '' file deleted from '' @ store_name sv))),
           0)
      | (fs1, Some err) \<Rightarrow>
          (fst (write_sock (w\<lparr>disk := fs1\<rparr>)
             (take 30 (''ERROR: '' @ kind_name sv @ '' file not found in '' @ store_name sv))),
           - 1))"

section \<open>download_file\<close>

text \<open>
  The transfer loop of \<^verbatim>\<open>download_file\<close>: \<^verbatim>\<open>while (remaining > 0)\<close>, reading at most
  \<^verbatim>\<open>BUFFER_SIZE\<close> bytes and writing what was read. It ends: \<open>remaining\<close> falls with
  every round that does not return.
\<close>

function send_loop :: "world \<Rightarrow> fd \<Rightarrow> nat \<Rightarrow> world \<times> int" where
  "send_loop w f remaining =
     (if remaining > 0 then
        (case read_fd w f (if remaining < BUFFER_SIZE then remaining else BUFFER_SIZE) of
           (w1, f1, n, buffer) \<Rightarrow>
             if n \<le> 0 then (fst (write_sock w1 (take 27 ''ERROR: File transfer failed'')), - 1)
             else
               (case write_sock w1 buffer of
                  (w2, m) \<Rightarrow>
                    if m \<noteq> n then
                      (fst (write_sock w2 (take 27 ''ERROR: File transfer failed'')), - 1)
                    else send_loop w2 f1 (remaining - nat n)))
      else (w, 0))"
  by pat_completeness auto
termination
  by (relation "measure (\<lambda>(w, f, remaining). remaining)") auto

definition download_file :: "env \<Rightarrow> server \<Rightarrow> world \<Rightarrow> string \<Rightarrow> world \<times> int" where
  "download_file e sv w filename =
     (case stat (disk w) (s2_path e sv filename) of
        None \<Rightarrow>
          (fst (write_sock w
             (take 30 (''ERROR: '' @ kind_name sv @ '' file not found in '' @ store_name sv))),
           - 1)
      | Some st \<Rightarrow>
          (case open_rdonly (disk w) (s2_path e sv filename) of
             None \<Rightarrow>
               (fst (write_sock w (take 29 (''ERROR: Failed to open '' @ kind_name sv @ '' file''))),
                - 1)
           | Some f \<Rightarrow>
               (case write_sock w (size_frame (st_size e st)) of
                  (w1, k) \<Rightarrow>
                    if k \<noteq> 8 then
                      (fst (write_sock w1 (take 31 ''ERROR: Failed to send file size'')), - 1)
                    else send_loop w1 f (st_size e st))))"

text \<open>
  For the statement of a failure in the middle of a transfer: the state of the loop
  after \<open>k\<close> rounds in which the \<^verbatim>\<open>read\<close> returned bytes and the \<^verbatim>\<open>write\<close> took all of
  them; \<open>None\<close> when the loop does not get that far.
\<close>

fun after_rounds :: "nat \<Rightarrow> world \<Rightarrow> fd \<Rightarrow> nat \<Rightarrow> (world \<times> fd \<times> nat) option" where
  "after_rounds 0 w f remaining = Some (w, f, remaining)"
| "after_rounds (Suc k) w f remaining =
     (if remaining > 0 then
        (case read_fd w f (if remaining < BUFFER_SIZE then remaining else BUFFER_SIZE) of
           (w1, f1, n, buffer) \<Rightarrow>
             if n \<le> 0 then None
             else
               (case write_sock w1 buffer of
                  (w2, m) \<Rightarrow>
                    if m \<noteq> n then None else after_rounds k w2 f1 (remaining - nat n)))
      else None)"

section \<open>download_tar\<close>

text \<open>Only \<^verbatim>\<open>s2.c\<close> has \<^verbatim>\<open>download_tar\<close>; the ZIP server does not know the command.\<close>

function sendfile_loop :: "world \<Rightarrow> fd \<Rightarrow> nat \<Rightarrow> (world \<times> int)" where
  "sendfile_loop w f remaining =
     (if remaining > 0 then
        (case sendfile w f remaining of
           (w1, f1, n) \<Rightarrow>
             if n \<le> 0 then (fst (write_sock w1 (take 27 ''ERROR: File transfer failed'')), - 1)
             else sendfile_loop w1 f1 (remaining - nat n))
      else (w, 0))"
  by pat_completeness auto
termination
  by (relation "measure (\<lambda>(w, f, remaining). remaining)") auto

definition download_tar :: "env \<Rightarrow> world \<Rightarrow> world \<times> int" where
  "download_tar e w =
     (case system_tar e (disk w) (snprintf MAX_PATH_LEN (HOME e @ ''/S2'')) of
        (fs1, status) \<Rightarrow>
          if status \<noteq> 0 then
            (fst (write_sock (w\<lparr>disk := fs1\<rparr>) (take 32 ''ERROR: Failed to create tar file'')), - 1)
          else
            (case stat fs1 ''/tmp/pdffiles.tar'' of
               None \<Rightarrow>
                 (fst (write_sock (w\<lparr>disk := fs1\<rparr>) (take 25 ''ERROR: Tar file not found'')), - 1)
             | Some st \<Rightarrow>
                 (case open_rdonly fs1 ''/tmp/pdffiles.tar'' of
                    None \<Rightarrow>
                      (fst (write_sock (w\<lparr>disk := fs1\<rparr>) (take 30 ''ERROR: Failed to open tar file'')),
                       - 1)
                  | Some f \<Rightarrow>
                      (case sendfile_loop
                              (fst (write_sock (w\<lparr>disk := fs1\<rparr>) (size_frame (st_size e st))))
                              f (st_size e st) of
                         (w2, rc) \<Rightarrow>
                           if rc < 0 then (w2, - 1)
                           else (w2\<lparr>disk := fst (unlink (disk w2) ''/tmp/pdffiles.tar'')\<rparr>, 0)))))"

section \<open>display_filenames\<close>

text \<open>
  \<^verbatim>\<open>list_pdf_files\<close> (\<^verbatim>\<open>list_zip_files\<close> in the ZIP server) is a nested function that
  appends to the buffer \<^verbatim>\<open>file_list\<close> of \<^verbatim>\<open>display_filenames\<close>; the model passes the
  buffer through. The recursion follows the directories of the file system and is
  not bounded by the program, so the model counts the depth it may still descend:
  with none left the result is \<open>None\<close>. \<open>readdir_loop\<close> is the \<^verbatim>\<open>while\<close> loop over
  the entries that \<^verbatim>\<open>readdir\<close> returns.
\<close>

definition new_relative_path :: "string \<Rightarrow> string \<Rightarrow> string" where
  "new_relative_path relative_path d_name =
     snprintf MAX_PATH_LEN
       (if relative_path = [] then d_name else relative_path @ ''/'' @ d_name)"

definition output_path :: "string \<Rightarrow> string \<Rightarrow> string" where
  "output_path relative_path d_name =
     snprintf MAX_PATH_LEN (''~S1/'' @ new_relative_path relative_path d_name)"

text \<open>The two \<^verbatim>\<open>strncat\<close> calls: the line, then the newline, as far as there is room.\<close>

definition add_line :: "string \<Rightarrow> string \<Rightarrow> string" where
  "add_line file_list line =
     (let file_list1 = strncat file_list line (BUFFER_SIZE - length file_list - 1)
      in strncat file_list1 [CHR 0x0A] (BUFFER_SIZE - length file_list1 - 1))"

fun list_pdf_files :: "server \<Rightarrow> filesystem \<Rightarrow> nat \<Rightarrow> string \<Rightarrow> string \<Rightarrow> string \<Rightarrow> string option"
  and readdir_loop ::
    "server \<Rightarrow> filesystem \<Rightarrow> nat \<Rightarrow> string \<Rightarrow> string \<Rightarrow> dirent list \<Rightarrow> string \<Rightarrow> string option"
where
  "list_pdf_files sv fs 0 base_path relative_path file_list = None"
| "list_pdf_files sv fs (Suc k) base_path relative_path file_list =
     (case opendir fs base_path of
        None \<Rightarrow> Some file_list
      | Some ents \<Rightarrow> readdir_loop sv fs k base_path relative_path ents file_list)"
| "readdir_loop sv fs k base_path relative_path [] file_list = Some file_list"
| "readdir_loop sv fs k base_path relative_path (ent # ents) file_list =
     (if fst ent = ''.'' \<or> fst ent = ''..'' then
        readdir_loop sv fs k base_path relative_path ents file_list
      else if snd ent = DT_REG then
        (if strrchr (fst ent) CHR ''.'' = Some (owned_ext sv) then
           readdir_loop sv fs k base_path relative_path ents
             (add_line file_list (output_path relative_path (fst ent)))
         else readdir_loop sv fs k base_path relative_path ents file_list)
      else if snd ent = DT_DIR then
        (case list_pdf_files sv fs k
                (snprintf MAX_PATH_LEN (base_path @ ''/'' @ fst ent))
                (new_relative_path relative_path (fst ent)) file_list of
           None \<Rightarrow> None
         | Some file_list1 \<Rightarrow> readdir_loop sv fs k base_path relative_path ents file_list1)
      else readdir_loop sv fs k base_path relative_path ents file_list)"

definition display_filenames ::
  "env \<Rightarrow> server \<Rightarrow> nat \<Rightarrow> world \<Rightarrow> string \<Rightarrow> (world \<times> int) option" where
  "display_filenames e sv depth w pathname =
     (case stat (disk w) (s2_path_list e sv pathname) of
        None \<Rightarrow> Some (fst (write_sock w []), 0)
      | Some st \<Rightarrow>
          if \<not> S_ISDIR st then Some (fst (write_sock w []), 0)
          else
            (case list_pdf_files sv (disk w) depth (s2_path_list e sv pathname) [] [] of
               None \<Rightarrow> None
             | Some file_list \<Rightarrow> Some (fst (write_sock w file_list), 0)))"

text \<open>
  For the statements about the listing. \<open>join_lines\<close> is the reply block of a list of
  lines, each followed by a newline. \<open>reached_at fs start n base rel\<close>: the traversal
  that starts at the directory \<open>start\<close> with the empty relative path calls
  \<^verbatim>\<open>list_pdf_files(base, rel)\<close> at nesting level \<open>n\<close>; it does so for every entry of
  type \<^verbatim>\<open>DT_DIR\<close> other than \<^verbatim>\<open>.\<close> and \<^verbatim>\<open>..\<close> of a directory it has opened. A line
  names a file the node owns when it is the \<^verbatim>\<open>output_path\<close>, under the relative path of
  such a call, of a regular file in the directory of that call whose name ends in
  the owned extension.
\<close>

definition join_lines :: "string list \<Rightarrow> string" where
  "join_lines ls = concat (map (\<lambda>l. l @ [CHR 0x0A]) ls)"

inductive reached_at :: "filesystem \<Rightarrow> string \<Rightarrow> nat \<Rightarrow> string \<Rightarrow> string \<Rightarrow> bool"
  for fs :: filesystem and start :: string
where
  top: "reached_at fs start 0 start []"
| sub: "reached_at fs start n base rel \<Longrightarrow> opendir fs base = Some ents \<Longrightarrow>
        (d, DT_DIR) \<in> set ents \<Longrightarrow> d \<noteq> ''.'' \<Longrightarrow> d \<noteq> ''..'' \<Longrightarrow>
        reached_at fs start (Suc n) (snprintf MAX_PATH_LEN (base @ ''/'' @ d))
          (new_relative_path rel d)"

definition listed :: "server \<Rightarrow> filesystem \<Rightarrow> string \<Rightarrow> string \<Rightarrow> bool" where
  "listed sv fs start line \<longleftrightarrow>
     (\<exists>n base rel ents name. reached_at fs start n base rel \<and> opendir fs base = Some ents
        \<and> (name, DT_REG) \<in> set ents \<and> suffix (owned_ext sv) name
        \<and> line = output_path rel name)"

section \<open>handle_client\<close>

text \<open>
  One command per connection. \<open>input\<close> is what \<^verbatim>\<open>read\<close> delivers: \<open>None\<close> for an
  error (the worker exits), else the bytes, of which \<^verbatim>\<open>BUFFER_SIZE - 1\<close> are taken;
  as a C string the buffer ends at the first NUL.
\<close>

definition handle_client :: "env \<Rightarrow> server \<Rightarrow> nat \<Rightarrow> world \<Rightarrow> string option \<Rightarrow> world option" where
  "handle_client e sv depth w input =
     (case input of
        None \<Rightarrow> Some w
      | Some bytes \<Rightarrow>
          (case strtok (takeWhile (\<lambda>c. c \<noteq> CHR 0x00) (take (BUFFER_SIZE - 1) bytes)) of
             None \<Rightarrow> Some (fst (write_sock w (take 22 ''ERROR: Invalid command'')))
           | Some (cmd, rest) \<Rightarrow>
               if cmd = ''uploadf'' then
                 (case strtok rest of
                    None \<Rightarrow>
                      Some (fst (write_sock w (take 36 ''ERROR: Invalid uploadf command format'')))
                  | Some (filename, rest1) \<Rightarrow>
                      (case strtok rest1 of
                         None \<Rightarrow>
                           Some (fst (write_sock w
                             (take 36 ''ERROR: Invalid uploadf command format'')))
                       | Some (dest_path, rest2) \<Rightarrow>
                           Some (fst (upload_file e sv w filename dest_path))))
               else if cmd = ''downlf'' then
                 (case strtok rest of
                    None \<Rightarrow>
                      Some (fst (write_sock w (take 34 ''ERROR: Invalid downlf command format'')))
                  | Some (filename, rest1) \<Rightarrow> Some (fst (download_file e sv w filename)))
               else if cmd = ''removef'' then
                 (case strtok rest of
                    None \<Rightarrow>
                      Some (fst (write_sock w (take 35 ''ERROR: Invalid removef command format'')))
                  | Some (filename, rest1) \<Rightarrow> Some (fst (remove_file e sv w filename)))
               else if sv = S2 \<and> cmd = ''downltar'' then Some (fst (download_tar e w))
               else if cmd = ''dispfnames'' then
                 (case strtok rest of
                    None \<Rightarrow>
                      Some (fst (write_sock w
                        (take 38 ''ERROR: Invalid dispfnames command format'')))
                  | Some (pathname, rest1) \<Rightarrow>
                      map_option fst (display_filenames e sv depth w pathname))
               else Some (fst (write_sock w (take 21 ''ERROR: Unknown command'')))))"

section \<open>Example states\<close>

text \<open>
  A node whose home is \<^verbatim>\<open>/home/user\<close>. In \<open>disk0\<close> only \<^verbatim>\<open>/home/user\<close> and \<^verbatim>\<open>/tmp\<close>
  exist, with two staged files in \<^verbatim>\<open>/tmp\<close>; the storage directory is not there yet.
  In \<open>disk1\<close> the storage directory of the PDF node holds \<^verbatim>\<open>docs/report.pdf\<close> and
  \<^verbatim>\<open>misc/notes.txt\<close>.
\<close>

definition env0 :: env where
  "env0 = \<lparr>HOME = ''/home/user'', dir_size = 4096, tar_status = 0, tar_bytes = Some ''TAR''\<rparr>"

definition disk0 :: filesystem where
  "disk0 = [([''home''], Dir), ([''home'', ''user''], Dir), ([''tmp''], Dir),
          ([''tmp'', ''report.pdf''], File True ''%PDF-1.4''),
          ([''tmp'', ''notes.txt''], File True ''hello'')]"

definition world0 :: world where
  "world0 = \<lparr>disk = disk0, sent = [], sock_io = [], file_io = []\<rparr>"

definition disk1 :: filesystem where
  "disk1 = [([''home''], Dir), ([''home'', ''user''], Dir), ([''tmp''], Dir),
          ([''home'', ''user'', ''S2''], Dir),
          ([''home'', ''user'', ''S2'', ''docs''], Dir),
          ([''home'', ''user'', ''S2'', ''docs'', ''report.pdf''], File True ''%PDF-1.4''),
          ([''home'', ''user'', ''S2'', ''misc''], Dir),
          ([''home'', ''user'', ''S2'', ''misc'', ''notes.txt''], File True ''hello'')]"

definition world1 :: world where
  "world1 = \<lparr>disk = disk1, sent = [], sock_io = [], file_io = []\<rparr>"

text \<open>
  \<open>disk_up\<close> is \<open>disk0\<close> after \<^verbatim>\<open>uploadf /tmp/report.pdf ~S1/docs\<close> on the PDF node: the
  storage directory and \<^verbatim>\<open>docs\<close> have been created and the staged file has moved.
\<close>

definition disk_up :: filesystem where
  "disk_up = [([''home''], Dir), ([''home'', ''user''], Dir), ([''tmp''], Dir),
          ([''home'', ''user'', ''S2'', ''docs'', ''report.pdf''], File True ''%PDF-1.4''),
          ([''tmp'', ''notes.txt''], File True ''hello''),
          ([''home'', ''user'', ''S2''], Dir),
          ([''home'', ''user'', ''S2'', ''docs''], Dir)]"

text \<open>
  \<open>disk_up2\<close> is \<open>disk0\<close> after \<^verbatim>\<open>uploadf /tmp/report.pdf ~S1/docs/report.pdf\<close>: the
  destination has been created as a directory, and the file is inside it.
\<close>

definition disk_up2 :: filesystem where
  "disk_up2 = [([''home''], Dir), ([''home'', ''user''], Dir), ([''tmp''], Dir),
          ([''home'', ''user'', ''S2'', ''docs'', ''report.pdf'', ''report.pdf''],
           File True ''%PDF-1.4''),
          ([''tmp'', ''notes.txt''], File True ''hello''),
          ([''home'', ''user'', ''S2''], Dir),
          ([''home'', ''user'', ''S2'', ''docs''], Dir),
          ([''home'', ''user'', ''S2'', ''docs'', ''report.pdf''], Dir)]"

text \<open>
  In \<open>disk2\<close> the storage directory holds a file of 27 bytes, \<^verbatim>\<open>docs/tiny.pdf\<close>.
\<close>

definition disk2 :: filesystem where
  "disk2 = [([''home''], Dir), ([''home'', ''user''], Dir), ([''tmp''], Dir),
          ([''home'', ''user'', ''S2''], Dir),
          ([''home'', ''user'', ''S2'', ''docs''], Dir),
          ([''home'', ''user'', ''S2'', ''docs'', ''tiny.pdf''],
           File True ''%PDF-1.4 twenty-seven bytes'')]"

definition world2 :: world where
  "world2 = \<lparr>disk = disk2, sent = [], sock_io = [], file_io = []\<rparr>"







text \<open>
  In \<open>disk_tree\<close> the storage directory itself holds \<^verbatim>\<open>top.pdf\<close>, beside the directory
  \<^verbatim>\<open>docs\<close> with \<^verbatim>\<open>report.pdf\<close> in it.
\<close>

definition disk_tree :: filesystem where
  "disk_tree = [([''home''], Dir), ([''home'', ''user''], Dir),
          ([''home'', ''user'', ''S2''], Dir),
          ([''home'', ''user'', ''S2'', ''top.pdf''], File True ''%PDF-1.4''),
          ([''home'', ''user'', ''S2'', ''docs''], Dir),
          ([''home'', ''user'', ''S2'', ''docs'', ''report.pdf''], File True ''%PDF-1.4'')]"

definition world_tree :: world where
  "world_tree = \<lparr>disk = disk_tree, sent = [], sock_io = [], file_io = []\<rparr>"

section \<open>Facts about the C library functions\<close>

lemma strrchr_None_iff: "strrchr s c = None \<longleftrightarrow> c \<notin> set s"
  by (induction s) (auto split: option.splits)

lemma strrchr_Some_iff:
  assumes "c \<notin> set t"
  shows "strrchr s c = Some (c # t) \<longleftrightarrow> suffix (c # t) s"
proof (induction s)
  case Nil
  then show ?case by simp
next
  case (Cons x xs)
  show ?case
  proof (cases "strrchr xs c")
    case None
    then have "c \<notin> set xs" by (simp add: strrchr_None_iff)
    then have "\<not> suffix (c # t) xs" by (auto simp: suffix_def)
    with None assms show ?thesis by (auto simp: suffix_Cons)
  next
    case (Some r)
    have "c \<in> set xs" using Some strrchr_None_iff [of xs c] by auto
    then have "x # xs \<noteq> c # t" using assms by auto
    with Some Cons show ?thesis by (auto simp: suffix_Cons)
  qed
qed

text \<open>
  The test \<^verbatim>\<open>ext == NULL || strcmp(ext, ".pdf") != 0\<close> on the result of \<^verbatim>\<open>strrchr\<close>
  fails exactly for the names that end in the owned extension.
\<close>

lemma owned_ext_check:
  "strrchr s CHR ''.'' = Some (owned_ext sv) \<longleftrightarrow> suffix (owned_ext sv) s"
  by (cases sv) (simp_all add: strrchr_Some_iff)

section \<open>Facts about the socket\<close>

lemma disk_write_sock: "disk (fst (write_sock w buf)) = disk w"
  by (cases "sock_io w" rule: next_io.cases) (auto simp: write_sock_def split: io.splits)

lemma sent_write_sock: "\<exists>k. sent (fst (write_sock w buf)) = sent w @ take k buf"
proof (cases "next_io (sock_io w)")
  case (Pair x r)
  show ?thesis
  proof (cases x)
    case Full
    with Pair have "sent (fst (write_sock w buf)) = sent w @ take (length buf) buf"
      by (simp add: write_sock_def)
    then show ?thesis by blast
  next
    case (Partial k)
    with Pair show ?thesis by (auto simp: write_sock_def)
  next
    case Fail
    with Pair have "sent (fst (write_sock w buf)) = sent w @ take 0 buf"
      by (simp add: write_sock_def)
    then show ?thesis by blast
  qed
qed

lemma length_size_frame: "length (size_frame n) = 8"
  by (simp add: size_frame_def)

section \<open>Facts about the example states\<close>

lemma env0_fields:
  "HOME env0 = ''/home/user''" "dir_size env0 = 4096" "tar_status env0 = 0"
  "tar_bytes env0 = Some ''TAR''"
  by (simp_all add: env0_def)

lemma s2_path_docs: "s2_path env0 S2 ''~S1/docs'' = ''/home/user/S2/docs''"
  by (simp add: s2_path_def env0_def snprintf_def MAX_PATH_LEN_def)

lemma stat_docs: "stat disk1 ''/home/user/S2/docs'' = Some Dir"
  by (simp add: stat_def resolve_def node_at_def disk1_def)

lemma stat_disk1_report: "stat disk1 ''/home/user/S2/docs/report.pdf'' = Some (File True ''%PDF-1.4'')"
  by (simp add: stat_def resolve_def node_at_def disk1_def)

lemma stat_disk0_docs: "stat disk0 ''/home/user/S2/docs'' = None"
  by (simp add: stat_def resolve_def node_at_def disk0_def)

section \<open>Facts about mkdir and the directory loop\<close>

text \<open>
  \<open>map_of fs \<subseteq>\<^sub>m map_of fs'\<close>: every node of \<open>fs\<close> is a node of \<open>fs'\<close>. Lookups that
  succeed keep their result when nodes are added, and \<^verbatim>\<open>mkdir\<close> only adds nodes.
\<close>

lemma segments_example:
  "segments ''/home/user/S2/docs'' =
     [''/home'', ''/home/user'', ''/home/user/S2'', ''/home/user/S2/docs'']"
  by (simp add: segments_def snprintf_def MAX_PATH_LEN_def)

lemma node_at_mono:
  "map_of fs \<subseteq>\<^sub>m map_of fs' \<Longrightarrow> node_at fs p = Some n \<Longrightarrow> node_at fs' p = Some n"
  by (auto simp: node_at_def map_le_def dom_def split: if_splits)

lemma walk_mono:
  "map_of fs \<subseteq>\<^sub>m map_of fs' \<Longrightarrow> walk fs cur cs = Inr p \<Longrightarrow> walk fs' cur cs = Inr p"
proof (induction cs arbitrary: cur)
  case Nil
  then show ?case by simp
next
  case (Cons c cs)
  from Cons.prems(2) have d: "node_at fs cur = Some Dir"
    by (auto split: option.splits node.splits)
  then have d': "node_at fs' cur = Some Dir"
    using Cons.prems(1) node_at_mono by blast
  show ?case
  proof (cases "c = [] \<or> c = ''.''")
    case True
    with Cons d d' show ?thesis by simp
  next
    case stay: False
    show ?thesis
    proof (cases "c = ''..''")
      case True
      with Cons d d' stay show ?thesis by simp
    next
      case False
      with Cons.prems(2) d stay obtain n where n: "node_at fs (cur @ [c]) = Some n"
        and w: "walk fs (cur @ [c]) cs = Inr p"
        by (auto split: option.splits)
      from n have "node_at fs' (cur @ [c]) = Some n"
        using Cons.prems(1) node_at_mono by blast
      with Cons.IH [OF Cons.prems(1) w] d' stay False show ?thesis by simp
    qed
  qed
qed

lemma walk_error: "walk fs cur cs = Inl e \<Longrightarrow> e = ENOENT \<or> e = ENOTDIR"
  by (induction cs arbitrary: cur) (auto split: option.splits node.splits if_splits)

lemma parent_leaf_mono:
  assumes "map_of fs \<subseteq>\<^sub>m map_of fs'" and "parent_leaf fs s = Inr (d, c)"
  shows "parent_leaf fs' s = Inr (d, c)"
proof -
  let ?cs = "strip_empty (split_on CHR ''/'' s)"
  from assms(2) have s: "s \<noteq> []" and cs: "?cs \<noteq> []"
    by (auto simp: parent_leaf_def Let_def split: if_splits)
  from assms(2) s cs have w: "walk fs [] (butlast ?cs) = Inr d" and n: "node_at fs d = Some Dir"
    and c: "c = last ?cs"
    by (auto simp: parent_leaf_def Let_def split: sum.splits option.splits node.splits)
  from walk_mono [OF assms(1) w] node_at_mono [OF assms(1) n] s cs c
  show ?thesis by (simp add: parent_leaf_def Let_def)
qed

lemma parent_leaf_EEXIST:
  assumes "parent_leaf fs s = Inl EEXIST"
  shows "parent_leaf fs' s = Inl EEXIST"
proof -
  let ?cs = "strip_empty (split_on CHR ''/'' s)"
  from assms have s: "s \<noteq> []" by (auto simp: parent_leaf_def split: if_splits)
  have "?cs = []"
  proof (rule ccontr)
    assume cs: "?cs \<noteq> []"
    with assms s show False
      by (auto simp: parent_leaf_def Let_def dest: walk_error
          split: sum.splits option.splits node.splits)
  qed
  with s show ?thesis by (simp add: parent_leaf_def Let_def)
qed

lemma mkdir_error_disk: "mkdir fs s = (fs1, Some e) \<Longrightarrow> fs1 = fs"
  by (auto simp: mkdir_def split: sum.splits prod.splits if_splits)

lemma mkdir_EEXIST_mono:
  assumes "map_of fs \<subseteq>\<^sub>m map_of fs'" and "mkdir fs s = (fs1, Some EEXIST)"
  shows "mkdir fs' s = (fs', Some EEXIST)"
proof (cases "parent_leaf fs s")
  case (Inl e)
  with assms(2) have "e = EEXIST" by (simp add: mkdir_def)
  with Inl have "parent_leaf fs' s = Inl EEXIST" using parent_leaf_EEXIST by blast
  then show ?thesis by (simp add: mkdir_def)
next
  case (Inr dc)
  then obtain d c where dc: "parent_leaf fs s = Inr (d, c)" by (cases dc) auto
  then have dc': "parent_leaf fs' s = Inr (d, c)" using assms(1) parent_leaf_mono by blast
  show ?thesis
  proof (cases "c = ''.'' \<or> c = ''..''")
    case True
    with dc' show ?thesis by (auto simp: mkdir_def)
  next
    case False
    with assms(2) dc obtain n where "node_at fs (d @ [c]) = Some n"
      by (auto simp: mkdir_def split: if_splits)
    then have "node_at fs' (d @ [c]) = Some n" using assms(1) node_at_mono by blast
    with dc' False show ?thesis by (simp add: mkdir_def)
  qed
qed

lemma append_new_extends: "map_of fs p = None \<Longrightarrow> map_of fs \<subseteq>\<^sub>m map_of (fs @ [(p, n)])"
  by (auto simp: map_le_def map_add_def split: option.splits)

lemma mkdir_extends: "mkdir fs s = (fs1, r) \<Longrightarrow> map_of fs \<subseteq>\<^sub>m map_of fs1"
  by (auto simp: mkdir_def node_at_def intro: append_new_extends
      split: sum.splits prod.splits if_splits)

lemma mkdir_new_exists:
  assumes "mkdir fs s = (fs1, None)"
  shows "mkdir fs1 s = (fs1, Some EEXIST)"
proof -
  from assms obtain d c where dc: "parent_leaf fs s = Inr (d, c)"
    and fs1: "fs1 = fs @ [(d @ [c], Dir)]" and c: "c \<noteq> ''.''" "c \<noteq> ''..''"
    by (auto simp: mkdir_def split: sum.splits prod.splits if_splits)
  have "parent_leaf fs1 s = Inr (d, c)"
    using parent_leaf_mono [OF mkdir_extends [OF assms] dc] .
  moreover have "node_at fs1 (d @ [c]) \<noteq> None"
    by (auto simp: fs1 node_at_def map_add_def split: option.splits)
  ultimately show ?thesis using c by (simp add: mkdir_def)
qed

lemma mkdir_then_exists:
  assumes "mkdir fs s = (fs1, r)" and "\<not> mkdir_failed r" and "map_of fs1 \<subseteq>\<^sub>m map_of fs2"
  shows "mkdir fs2 s = (fs2, Some EEXIST)"
proof (cases r)
  case None
  with assms(1) have "mkdir fs1 s = (fs1, Some EEXIST)" using mkdir_new_exists by blast
  with assms(3) show ?thesis using mkdir_EEXIST_mono by blast
next
  case (Some e)
  with assms(2) have e: "e = EEXIST" by (simp add: mkdir_failed_def)
  with Some assms(1) have "fs1 = fs" using mkdir_error_disk by blast
  with Some e assms(1,3) show ?thesis using mkdir_EEXIST_mono by blast
qed

lemma mkdir_failed_disk: "mkdir fs s = (fs1, r) \<Longrightarrow> mkdir_failed r \<Longrightarrow> fs1 = fs"
  by (cases r) (auto simp: mkdir_failed_def dest: mkdir_error_disk)

lemma cdt_loop_extends:
  "cdt_loop fs pre rest = (fs', rc) \<Longrightarrow> map_of fs \<subseteq>\<^sub>m map_of fs'"
proof (induction rest arbitrary: fs pre)
  case Nil
  obtain fs1 r where m: "mkdir fs pre = (fs1, r)" by (cases "mkdir fs pre")
  with Nil have "fs' = fs1" by (auto split: if_splits)
  with mkdir_extends [OF m] show ?case by simp
next
  case (Cons c cs)
  show ?case
  proof (cases "c = CHR ''/''")
    case False
    with Cons show ?thesis by simp
  next
    case True
    obtain fs1 r where m: "mkdir fs pre = (fs1, r)" by (cases "mkdir fs pre")
    show ?thesis
    proof (cases "mkdir_failed r")
      case True
      with m Cons.prems \<open>c = CHR ''/''\<close> show ?thesis by (auto dest: mkdir_extends)
    next
      case False
      with m Cons.prems \<open>c = CHR ''/''\<close> have "cdt_loop fs1 (pre @ [c]) cs = (fs', rc)" by simp
      then have "map_of fs1 \<subseteq>\<^sub>m map_of fs'" by (rule Cons.IH)
      with mkdir_extends [OF m] show ?thesis by (rule map_le_trans)
    qed
  qed
qed

lemma cdt_loop_twice:
  "cdt_loop fs pre rest = (fs', rc) \<Longrightarrow>
     cdt_loop fs' pre rest = (fs', rc)
   \<and> (rc = 0 \<or> rc = - 1)
   \<and> (rc = 0 \<longrightarrow> (\<forall>s \<in> set (mkdir_targets pre rest). mkdir fs' s = (fs', Some EEXIST)))
   \<and> (rc = - 1 \<longrightarrow> (\<exists>s \<in> set (mkdir_targets pre rest). mkdir_failed (snd (mkdir fs' s))))"
proof (induction rest arbitrary: fs pre)
  case Nil
  obtain fs1 r where m: "mkdir fs pre = (fs1, r)" by (cases "mkdir fs pre")
  show ?case
  proof (cases "mkdir_failed r")
    case True
    with m have "fs1 = fs" using mkdir_failed_disk by blast
    with m True Nil show ?thesis by auto
  next
    case False
    with m Nil have "fs' = fs1" "rc = 0" by auto
    moreover have "mkdir fs1 pre = (fs1, Some EEXIST)"
      using mkdir_then_exists [OF m False] by simp
    ultimately show ?thesis by (simp add: mkdir_failed_def)
  qed
next
  case (Cons c cs)
  show ?case
  proof (cases "c = CHR ''/''")
    case False
    with Cons.prems have "cdt_loop fs (pre @ [c]) cs = (fs', rc)" by simp
    from Cons.IH [OF this] False show ?thesis by simp
  next
    case slash: True
    obtain fs1 r where m: "mkdir fs pre = (fs1, r)" by (cases "mkdir fs pre")
    show ?thesis
    proof (cases "mkdir_failed r")
      case True
      with m have "fs1 = fs" using mkdir_failed_disk by blast
      with m True Cons.prems slash show ?thesis by auto
    next
      case False
      with m Cons.prems slash have l: "cdt_loop fs1 (pre @ [c]) cs = (fs', rc)" by simp
      have e: "mkdir fs' pre = (fs', Some EEXIST)"
        using mkdir_then_exists [OF m False cdt_loop_extends [OF l]] .
      from Cons.IH [OF l] e slash show ?thesis by (simp add: mkdir_failed_def)
    qed
  qed
qed

lemma cdt_disk0_docs:
  "create_directory_tree disk0 ''/home/user/S2/docs'' =
     (disk0 @ [([''home'', ''user'', ''S2''], Dir), ([''home'', ''user'', ''S2'', ''docs''], Dir)], 0)"
  by (simp add: create_directory_tree_def snprintf_def MAX_PATH_LEN_def mkdir_def
      parent_leaf_def strip_empty_def node_at_def disk0_def mkdir_failed_def)

lemma cdt_disk0_under_file:
  "create_directory_tree disk0 ''/tmp/report.pdf/x'' = (disk0, - 1)"
  by (simp add: create_directory_tree_def snprintf_def MAX_PATH_LEN_def mkdir_def
      parent_leaf_def strip_empty_def node_at_def disk0_def mkdir_failed_def)

lemma s2_path_tiny: "s2_path env0 S2 ''~S1/docs/tiny.pdf'' = ''/home/user/S2/docs/tiny.pdf''"
  by (simp add: s2_path_def env0_fields snprintf_def MAX_PATH_LEN_def)

lemma stat_disk2_tiny:
  "stat disk2 ''/home/user/S2/docs/tiny.pdf'' = Some (File True ''%PDF-1.4 twenty-seven bytes'')"
  by (simp add: stat_def resolve_def node_at_def disk2_def)

section \<open>Facts about the transfer loop\<close>

lemma write_sock_full:
  assumes "write_sock w buf = (w1, int (length buf))"
  shows "sent w1 = sent w @ buf" and "disk w1 = disk w"
  using assms
  by (auto simp: write_sock_def min_def split: prod.splits io.splits if_splits)

lemma write_sock_short:
  assumes "write_sock w buf = (w1, m)" and "m \<noteq> int (length buf)" and "buf \<noteq> []"
  shows "\<exists>k<length buf. sent w1 = sent w @ take k buf"
proof (cases "next_io (sock_io w)")
  case (Pair x rest)
  show ?thesis
  proof (cases x)
    case Full
    with Pair assms show ?thesis by (auto simp: write_sock_def)
  next
    case (Partial k)
    with Pair assms have "k < length buf" "sent w1 = sent w @ take k buf"
      by (auto simp: write_sock_def min_def split: if_splits)
    then show ?thesis by blast
  next
    case Fail
    with Pair assms have "0 < length buf" "sent w1 = sent w @ take 0 buf"
      by (auto simp: write_sock_def)
    then show ?thesis by blast
  qed
qed

lemma read_fd_file:
  assumes "read_fd w (Fd (File r bs) off) count = (w1, f1, n, buffer)"
  shows "sent w1 = sent w"
    and "0 < n \<Longrightarrow> n = int (length buffer) \<and> f1 = Fd (File r bs) (off + length buffer)
                  \<and> buffer = take (length buffer) (drop off bs) \<and> length buffer \<le> count"
  using assms
  by (auto simp: min_def split: prod.splits io.splits if_splits)

declare send_loop.simps [simp del]

text \<open>
  Rounds that succeed leave the loop where it would be had it been started there, and
  what they send is the part of the file that has been read.
\<close>

lemma after_rounds_send_loop:
  "after_rounds k w f remaining = Some (wk, fk, remk) \<Longrightarrow>
   send_loop w f remaining = send_loop wk fk remk"
proof (induction k arbitrary: w f remaining)
  case 0
  then show ?case by simp
next
  case (Suc k)
  let ?count = "if remaining < BUFFER_SIZE then remaining else BUFFER_SIZE"
  from Suc.prems have pos: "0 < remaining" by (auto split: if_splits)
  obtain w1 f1 n buffer where rd: "read_fd w f ?count = (w1, f1, n, buffer)"
    by (cases "read_fd w f ?count") auto
  obtain w2 m where wr: "write_sock w1 buffer = (w2, m)"
    by (cases "write_sock w1 buffer")
  from Suc.prems pos rd wr have n: "\<not> n \<le> 0" and m: "m = n"
    and rest: "after_rounds k w2 f1 (remaining - nat n) = Some (wk, fk, remk)"
    by (auto split: if_splits)
  from pos rd wr n m have "send_loop w f remaining = send_loop w2 f1 (remaining - nat n)"
    by (simp add: send_loop.simps [of w f remaining])
  with Suc.IH [OF rest] show ?case by simp
qed

lemma after_rounds_sent:
  "after_rounds k w (Fd (File r bs) off) remaining = Some (wk, fk, remk) \<Longrightarrow>
   \<exists>c. fk = Fd (File r bs) (off + c) \<and> sent wk = sent w @ take c (drop off bs)
     \<and> c + remk = remaining"
proof (induction k arbitrary: w off remaining)
  case 0
  then show ?case by simp
next
  case (Suc k)
  let ?f = "Fd (File r bs) off"
  let ?count = "if remaining < BUFFER_SIZE then remaining else BUFFER_SIZE"
  from Suc.prems have pos: "0 < remaining" by (auto split: if_splits)
  obtain w1 f1 n buffer where rd: "read_fd w ?f ?count = (w1, f1, n, buffer)"
    by (cases "read_fd w ?f ?count") auto
  obtain w2 m where wr: "write_sock w1 buffer = (w2, m)"
    by (cases "write_sock w1 buffer")
  from Suc.prems pos rd wr have n0: "0 < n" and m: "m = n"
    and rest: "after_rounds k w2 f1 (remaining - nat n) = Some (wk, fk, remk)"
    by (auto simp del: read_fd.simps split: if_splits)
  have s1: "sent w1 = sent w" using rd read_fd_file(1) by blast
  from rd n0 have n: "n = int (length buffer)"
    and f1: "f1 = Fd (File r bs) (off + length buffer)"
    and buf: "buffer = take (length buffer) (drop off bs)"
    and le: "length buffer \<le> ?count"
    using read_fd_file(2) [of w r bs off ?count w1 f1 n buffer] by auto
  from le have le': "length buffer \<le> remaining" by (auto split: if_splits)
  from wr m n have s2: "sent w2 = sent w1 @ buffer" using write_sock_full(1) by blast
  from Suc.IH [OF rest [unfolded f1]] obtain c
    where fk: "fk = Fd (File r bs) (off + length buffer + c)"
      and sk: "sent wk = sent w2 @ take c (drop (off + length buffer) bs)"
      and c: "c + remk = remaining - nat n" by blast
  have a: "take (length buffer + c) (drop off bs)
             = take (length buffer) (drop off bs) @ take c (drop (off + length buffer) bs)"
    unfolding take_add drop_drop by (simp add: add.commute)
  have "buffer @ take c (drop (off + length buffer) bs) = take (length buffer + c) (drop off bs)"
    by (simp only: a buf [symmetric])
  with sk s2 s1 have "sent wk = sent w @ take (length buffer + c) (drop off bs)" by simp
  moreover have "length buffer + c + remk = remaining" using c n le' by simp
  moreover have "fk = Fd (File r bs) (off + (length buffer + c))" using fk by (simp add: add.assoc)
  ultimately show ?case by blast
qed

section \<open>Facts about the listing\<close>

text \<open>
  Every step of the traversal turns the buffer \<open>buf\<close> into the first
  \<^verbatim>\<open>BUFFER_SIZE - 1\<close> characters of \<open>buf\<close> followed by some lines that name owned
  files.
\<close>

lemma join_lines_append: "join_lines (xs @ ys) = join_lines xs @ join_lines ys"
  by (simp add: join_lines_def)

lemma take_take_append: "take n (take n xs @ ys) = take n (xs @ ys)"
  by (simp add: min_def)

lemma add_line_take:
  "length file_list \<le> BUFFER_SIZE - 1 \<Longrightarrow>
   add_line file_list line = take (BUFFER_SIZE - 1) (file_list @ line @ [CHR 0x0A])"
  by (simp add: add_line_def strncat_def Let_def BUFFER_SIZE_def min_def)


lemma join_lines_Nil: "join_lines [] = []"
  by (simp add: join_lines_def)

lemma readdir_step:
  assumes A: "\<forall>n base rel buf out. reached_at fs start n base rel \<longrightarrow>
                list_pdf_files sv fs k base rel buf = Some out \<longrightarrow>
                length buf \<le> BUFFER_SIZE - 1 \<longrightarrow>
                (\<exists>ls. out = take (BUFFER_SIZE - 1) (buf @ join_lines ls)
                      \<and> (\<forall>l\<in>set ls. listed sv fs start l))"
    and run: "readdir_loop sv fs k base rel (ent # ents) buf = Some out"
    and len: "length buf \<le> BUFFER_SIZE - 1"
    and dir: "opendir fs base = Some all" "ent \<in> set all"
    and reach: "reached_at fs start n base rel"
  shows "\<exists>ls. readdir_loop sv fs k base rel ents (take (BUFFER_SIZE - 1) (buf @ join_lines ls)) = Some out
           \<and> (\<forall>l\<in>set ls. listed sv fs start l)
           \<and> (snd ent = DT_REG \<and> suffix (owned_ext sv) (fst ent)
                \<and> fst ent \<noteq> ''.'' \<and> fst ent \<noteq> ''..'' \<longrightarrow> ls = [output_path rel (fst ent)])"
proof -
  let ?N = "BUFFER_SIZE - 1"
  let ?same = "readdir_loop sv fs k base rel ents buf = Some out"
  have keep: "?same \<Longrightarrow> \<not> (snd ent = DT_REG \<and> suffix (owned_ext sv) (fst ent)
                \<and> fst ent \<noteq> ''.'' \<and> fst ent \<noteq> ''..'') \<Longrightarrow> ?thesis"
    using len by (intro exI [of _ "[]"]) (simp add: join_lines_Nil)
  show ?thesis
  proof (cases "fst ent = ''.'' \<or> fst ent = ''..''")
    case True
    with run have ?same by simp
    with True show ?thesis by (intro keep) auto
  next
    case nodot: False
    show ?thesis
    proof (cases "snd ent")
      case DT_REG
      show ?thesis
      proof (cases "suffix (owned_ext sv) (fst ent)")
        case True
        let ?line = "output_path rel (fst ent)"
        from run nodot DT_REG True
        have "readdir_loop sv fs k base rel ents (add_line buf ?line) = Some out"
          by (simp add: owned_ext_check)
        then have r: "readdir_loop sv fs k base rel ents (take ?N (buf @ join_lines [?line])) = Some out"
          using len by (simp add: add_line_take join_lines_def)
        have "ent = (fst ent, DT_REG)" using DT_REG by (cases ent) simp
        with dir(2) have "(fst ent, DT_REG) \<in> set all" by simp
        then have "listed sv fs start ?line"
          unfolding listed_def using dir(1) True reach by blast
        with r show ?thesis by (intro exI [of _ "[?line]"]) simp
      next
        case False
        with run nodot DT_REG have ?same by (simp add: owned_ext_check)
        with False show ?thesis by (intro keep) auto
      qed
    next
      case DT_DIR
      let ?sub = "list_pdf_files sv fs k (snprintf MAX_PATH_LEN (base @ ''/'' @ fst ent))
                    (new_relative_path rel (fst ent)) buf"
      from run nodot DT_DIR obtain buf1 where sub: "?sub = Some buf1"
        and r: "readdir_loop sv fs k base rel ents buf1 = Some out"
        by (auto split: option.splits)
      have "ent = (fst ent, DT_DIR)" using DT_DIR by (cases ent) simp
      with dir(2) have "(fst ent, DT_DIR) \<in> set all" by simp
      with reach dir(1) nodot
      have "reached_at fs start (Suc n) (snprintf MAX_PATH_LEN (base @ ''/'' @ fst ent))
              (new_relative_path rel (fst ent))"
        by (intro reached_at.sub) auto
      with A sub len obtain ls where "buf1 = take ?N (buf @ join_lines ls)"
        and "\<forall>l\<in>set ls. listed sv fs start l" by blast
      with r DT_DIR show ?thesis by (intro exI [of _ ls]) simp
    next
      case DT_UNKNOWN
      with run nodot have ?same by simp
      with DT_UNKNOWN show ?thesis by (intro keep) auto
    qed
  qed
qed

lemma readdir_loop_inv:
  assumes A: "\<forall>n base rel buf out. reached_at fs start n base rel \<longrightarrow>
                list_pdf_files sv fs k base rel buf = Some out \<longrightarrow>
                length buf \<le> BUFFER_SIZE - 1 \<longrightarrow>
                (\<exists>ls. out = take (BUFFER_SIZE - 1) (buf @ join_lines ls)
                      \<and> (\<forall>l\<in>set ls. listed sv fs start l))"
    and dir: "opendir fs base = Some all"
    and reach: "reached_at fs start n base rel"
  shows "readdir_loop sv fs k base rel ents buf = Some out \<Longrightarrow> length buf \<le> BUFFER_SIZE - 1 \<Longrightarrow>
         set ents \<subseteq> set all \<Longrightarrow>
         \<exists>ls. out = take (BUFFER_SIZE - 1) (buf @ join_lines ls) \<and> (\<forall>l\<in>set ls. listed sv fs start l)"
proof (induction ents arbitrary: buf)
  case Nil
  then show ?case by (intro exI [of _ "[]"]) (simp add: join_lines_Nil)
next
  case (Cons ent ents)
  let ?N = "BUFFER_SIZE - 1"
  from Cons.prems(3) have ent: "ent \<in> set all" and sub: "set ents \<subseteq> set all" by auto
  from readdir_step [OF A Cons.prems(1,2) dir ent reach]
  obtain ls1 where r: "readdir_loop sv fs k base rel ents (take ?N (buf @ join_lines ls1)) = Some out"
    and l1: "\<forall>l\<in>set ls1. listed sv fs start l" by blast
  have len1: "length (take ?N (buf @ join_lines ls1)) \<le> ?N" by simp
  from Cons.IH [OF r len1 sub] obtain ls2
    where out: "out = take ?N (take ?N (buf @ join_lines ls1) @ join_lines ls2)"
      and l2: "\<forall>l\<in>set ls2. listed sv fs start l" by blast
  from out have "out = take ?N (buf @ join_lines (ls1 @ ls2))"
    by (simp only: take_take_append join_lines_append append_assoc)
  with l1 l2 show ?case by (intro exI [of _ "ls1 @ ls2"]) auto
qed

lemma list_pdf_files_inv_all:
  "\<forall>n base rel buf out. reached_at fs start n base rel \<longrightarrow>
     list_pdf_files sv fs k base rel buf = Some out \<longrightarrow>
     length buf \<le> BUFFER_SIZE - 1 \<longrightarrow>
     (\<exists>ls. out = take (BUFFER_SIZE - 1) (buf @ join_lines ls)
           \<and> (\<forall>l\<in>set ls. listed sv fs start l))"
proof (induction k)
  case 0
  then show ?case by simp
next
  case (Suc k)
  show ?case
  proof (intro allI impI)
    fix n base rel buf out
    assume reach: "reached_at fs start n base rel"
      and run: "list_pdf_files sv fs (Suc k) base rel buf = Some out"
      and len: "length buf \<le> BUFFER_SIZE - 1"
    show "\<exists>ls. out = take (BUFFER_SIZE - 1) (buf @ join_lines ls)
            \<and> (\<forall>l\<in>set ls. listed sv fs start l)"
    proof (cases "opendir fs base")
      case None
      with run len show ?thesis by (intro exI [of _ "[]"]) (simp add: join_lines_Nil)
    next
      case (Some ents)
      with run have "readdir_loop sv fs k base rel ents buf = Some out" by simp
      from readdir_loop_inv [OF Suc.IH Some reach this len] show ?thesis by simp
    qed
  qed
qed


lemma owned_ext_not_dot:
  "suffix (owned_ext sv) name \<Longrightarrow> name \<noteq> ''.'' \<and> name \<noteq> ''..''"
  by (cases sv) (auto simp: suffix_def Cons_eq_append_conv)

text \<open>
  An owned regular file among the entries still to be read gets its line, between
  the lines of the entries before it and after it.
\<close>

lemma readdir_loop_emits:
  assumes dir: "opendir fs base = Some all"
    and reach: "reached_at fs start n base rel"
  shows "readdir_loop sv fs k base rel ents buf = Some out \<Longrightarrow> length buf \<le> BUFFER_SIZE - 1 \<Longrightarrow>
         set ents \<subseteq> set all \<Longrightarrow> (name, DT_REG) \<in> set ents \<Longrightarrow> suffix (owned_ext sv) name \<Longrightarrow>
         \<exists>ls1 ls2. out = take (BUFFER_SIZE - 1)
                            (buf @ join_lines (ls1 @ [output_path rel name] @ ls2))"
proof (induction ents arbitrary: buf)
  case Nil
  then show ?case by simp
next
  case (Cons ent ents)
  let ?N = "BUFFER_SIZE - 1"
  from Cons.prems(3) have ent: "ent \<in> set all" and sub: "set ents \<subseteq> set all" by auto
  from readdir_step [OF list_pdf_files_inv_all Cons.prems(1,2) dir ent reach]
  obtain ls1 where r: "readdir_loop sv fs k base rel ents (take ?N (buf @ join_lines ls1)) = Some out"
    and here: "snd ent = DT_REG \<and> suffix (owned_ext sv) (fst ent)
                \<and> fst ent \<noteq> ''.'' \<and> fst ent \<noteq> ''..'' \<longrightarrow> ls1 = [output_path rel (fst ent)]"
    by blast
  have len1: "length (take ?N (buf @ join_lines ls1)) \<le> ?N" by simp
  show ?case
  proof (cases "ent = (name, DT_REG)")
    case True
    with here Cons.prems(5) owned_ext_not_dot [of sv name]
    have ls1: "ls1 = [output_path rel name]" by simp
    from readdir_loop_inv [OF list_pdf_files_inv_all dir reach r len1 sub]
    obtain ls2 where "out = take ?N (take ?N (buf @ join_lines ls1) @ join_lines ls2)" by blast
    then have "out = take ?N (buf @ join_lines ([] @ [output_path rel name] @ ls2))"
      by (simp only: take_take_append ls1 join_lines_append append_assoc append_Nil)
    then show ?thesis by blast
  next
    case False
    with Cons.prems(4) have "(name, DT_REG) \<in> set ents" by auto
    from Cons.IH [OF r len1 sub this Cons.prems(5)]
    obtain la lb where "out = take ?N (take ?N (buf @ join_lines ls1)
                              @ join_lines (la @ [output_path rel name] @ lb))" by blast
    then have "out = take ?N (buf @ join_lines ((ls1 @ la) @ [output_path rel name] @ lb))"
      by (simp only: take_take_append join_lines_append append_assoc)
    then show ?thesis by blast
  qed
qed

lemma output_path_untruncated:
  assumes "length (output_path [] name) < MAX_PATH_LEN - 1"
  shows "output_path [] name = ''~S1/'' @ name"
proof -
  let ?r = "new_relative_path [] name"
  from assms have "length (''~S1/'' @ ?r) < MAX_PATH_LEN - 1"
    by (auto simp: output_path_def snprintf_def min_def split: if_splits)
  then have o: "output_path [] name = ''~S1/'' @ ?r" and "length ?r < MAX_PATH_LEN - 1"
    by (simp_all add: output_path_def snprintf_def)
  then have "?r = name"
    by (auto simp: new_relative_path_def snprintf_def min_def split: if_splits)
  with o show ?thesis by simp
qed

text \<open>
  The traversal returns when the depth it is allowed covers the nesting: if no call
  is made at level \<open>D\<close>, a call at level \<open>n\<close> returns with depth \<open>D - n\<close>.
\<close>

lemma readdir_loop_total:
  assumes T: "\<forall>base rel buf. reached_at fs start (Suc n) base rel \<longrightarrow>
                (\<exists>out. list_pdf_files sv fs k base rel buf = Some out)"
    and dir: "opendir fs base = Some all"
    and reach: "reached_at fs start n base rel"
  shows "set ents \<subseteq> set all \<Longrightarrow> \<exists>out. readdir_loop sv fs k base rel ents buf = Some out"
proof (induction ents arbitrary: buf)
  case Nil
  then show ?case by simp
next
  case (Cons ent ents)
  from Cons.prems have ent: "ent \<in> set all" and sub: "set ents \<subseteq> set all" by auto
  show ?case
  proof (cases "snd ent = DT_DIR \<and> fst ent \<noteq> ''.'' \<and> fst ent \<noteq> ''..''")
    case False
    with Cons.IH [OF sub] show ?thesis by auto
  next
    case True
    have "ent = (fst ent, DT_DIR)" using True by (cases ent) simp
    with ent have "(fst ent, DT_DIR) \<in> set all" by simp
    with reach dir True
    have "reached_at fs start (Suc n) (snprintf MAX_PATH_LEN (base @ ''/'' @ fst ent))
              (new_relative_path rel (fst ent))"
      by (intro reached_at.sub) auto
    with T obtain buf1 where
      "list_pdf_files sv fs k (snprintf MAX_PATH_LEN (base @ ''/'' @ fst ent))
         (new_relative_path rel (fst ent)) buf = Some buf1" by blast
    with True Cons.IH [OF sub, of buf1] show ?thesis by simp
  qed
qed

lemma list_pdf_files_total_all:
  assumes none: "\<forall>base rel. \<not> reached_at fs start D base rel"
  shows "\<forall>n base rel buf. reached_at fs start n base rel \<longrightarrow> n + k = D \<longrightarrow>
           (\<exists>out. list_pdf_files sv fs k base rel buf = Some out)"
proof (induction k)
  case 0
  with none show ?case by auto
next
  case (Suc k)
  show ?case
  proof (intro allI impI)
    fix n base rel buf
    assume reach: "reached_at fs start n base rel" and n: "n + Suc k = D"
    from Suc n have T: "\<forall>base rel buf. reached_at fs start (Suc n) base rel \<longrightarrow>
                (\<exists>out. list_pdf_files sv fs k base rel buf = Some out)" by simp
    show "\<exists>out. list_pdf_files sv fs (Suc k) base rel buf = Some out"
    proof (cases "opendir fs base")
      case None
      then show ?thesis by simp
    next
      case (Some ents)
      from readdir_loop_total [OF T Some reach subset_refl] Some show ?thesis by simp
    qed
  qed
qed

lemma list_pdf_files_total:
  "\<forall>base rel. \<not> reached_at fs start D base rel \<Longrightarrow>
   \<exists>out. list_pdf_files sv fs D start [] buf = Some out"
  using list_pdf_files_total_all [of fs start D D sv] reached_at.top [of fs start] by auto

lemma join_lines_Cons: "join_lines (l # ls) = l @ [CHR 0x0A] @ join_lines ls"
  by (simp add: join_lines_def)


lemma reached_at_0: "reached_at fs start 0 base rel \<longleftrightarrow> base = start \<and> rel = []"
  by (subst reached_at.simps) auto

lemma reached_at_Suc:
  "reached_at fs start (Suc n) b r \<longleftrightarrow>
     (\<exists>base rel ents d. reached_at fs start n base rel \<and> opendir fs base = Some ents
        \<and> (d, DT_DIR) \<in> set ents \<and> d \<noteq> ''.'' \<and> d \<noteq> ''..''
        \<and> b = snprintf MAX_PATH_LEN (base @ ''/'' @ d) \<and> r = new_relative_path rel d)"
  by (subst reached_at.simps) auto


lemma opendir_stat: "opendir fs s = Some ents \<Longrightarrow> stat fs s = Some Dir"
  by (auto simp: opendir_def stat_def split: sum.splits option.splits node.splits)


lemma take_short: "length (take n xs) < n \<Longrightarrow> take n xs = xs"
  by (simp add: min_def split: if_splits)

lemma s2_path_list_examples:
  "s2_path_list env0 S2 ''~S1'' = ''/home/user/S2''"
  "s2_path_list env0 S2 ''~S1/docs'' = ''/home/user/S2/docs''"
  "s2_path_list env0 S2 ''~S1/misc'' = ''/home/user/S2/misc''"
  by (simp_all add: s2_path_list_def snprintf_def MAX_PATH_LEN_def env0_fields)








lemma opendir_disk_tree:
  "opendir disk_tree ''/home/user/S2''
     = Some [(''.'', DT_DIR), (''..'', DT_DIR), (''top.pdf'', DT_REG), (''docs'', DT_DIR)]"
  "opendir disk_tree ''/home/user/S2/docs''
     = Some [(''.'', DT_DIR), (''..'', DT_DIR), (''report.pdf'', DT_REG)]"
  by (simp_all add: opendir_def resolve_def node_at_def disk_tree_def)

lemma reached_disk_tree_1:
  "reached_at disk_tree ''/home/user/S2'' (Suc 0) base rel \<Longrightarrow> base = ''/home/user/S2/docs''"
  by (auto simp: reached_at_Suc reached_at_0 opendir_disk_tree snprintf_def MAX_PATH_LEN_def)

lemma reached_disk_tree_2: "\<not> reached_at disk_tree ''/home/user/S2'' 2 base rel"
proof
  assume "reached_at disk_tree ''/home/user/S2'' 2 base rel"
  then obtain b r ents d where "reached_at disk_tree ''/home/user/S2'' (Suc 0) b r"
    and "opendir disk_tree b = Some ents" and "(d, DT_DIR) \<in> set ents"
    and "d \<noteq> ''.''" and "d \<noteq> ''..''"
    by (auto simp: numeral_2_eq_2 reached_at_Suc [of _ _ "Suc 0"])
  with reached_disk_tree_1 [of b r] show False
    by (auto simp: opendir_disk_tree)
qed

lemma list_disk_tree_docs:
  "list_pdf_files S2 disk_tree (Suc k) ''/home/user/S2/docs'' rel buf
     = Some (add_line buf (output_path rel ''report.pdf''))"
  by (simp add: opendir_disk_tree)

lemma list_disk_tree_root:
  "list_pdf_files S2 disk_tree (Suc (Suc k)) ''/home/user/S2'' [] []
     = Some (''~S1/top.pdf'' @ [CHR 0x0A] @ ''~S1/docs/report.pdf'' @ [CHR 0x0A])"
  by (subst list_pdf_files.simps)
    (simp add: opendir_disk_tree snprintf_def MAX_PATH_LEN_def list_disk_tree_docs
      add_line_def strncat_def BUFFER_SIZE_def output_path_def new_relative_path_def
      del: list_pdf_files.simps)

lemma display_disk_tree_root:
  "display_filenames env0 S2 2 world_tree ''~S1''
     = Some (world_tree\<lparr>sent := ''~S1/top.pdf'' @ [CHR 0x0A] @ ''~S1/docs/report.pdf'' @ [CHR 0x0A]\<rparr>, 0)"
  using list_disk_tree_root [of 0] opendir_stat [OF opendir_disk_tree(1)]
  by (simp add: display_filenames_def s2_path_list_examples world_tree_def write_sock_def
      numeral_2_eq_2 del: list_pdf_files.simps)











lemma upload_world0_docs:
  "upload_file env0 S2 world0 ''/tmp/report.pdf'' ''~S1/docs''
     = (world0\<lparr>disk := disk_up, sent := ''SUCCESS: PDF file stored in S2''\<rparr>, 0)"
proof -
  have b: "basename ''/tmp/report.pdf'' = ''report.pdf''"
    by (simp add: basename_def strip_slashes_def)
  have r: "rename (disk0 @ [([''home'', ''user'', ''S2''], Dir),
                         ([''home'', ''user'', ''S2'', ''docs''], Dir)])
              ''/tmp/report.pdf'' ''/home/user/S2/docs/report.pdf'' = (disk_up, None)"
    by (simp add: rename_def resolve_def parent_leaf_def strip_empty_def node_at_def disk0_def
        move_file_def disk_up_def)
  have x: "strrchr ''/tmp/report.pdf'' CHR ''.'' = Some (owned_ext S2)"
    by (simp add: owned_ext_check suffix_def)
  show ?thesis
    by (simp add: upload_file_def x cdt_disk0_docs b s2_path_docs snprintf_def MAX_PATH_LEN_def r
        write_sock_def world0_def del: strrchr.simps)
qed

lemma opendir_disk_up:
  "opendir disk_up ''/home/user/S2/docs'' = Some [(''.'', DT_DIR), (''..'', DT_DIR), (''report.pdf'', DT_REG)]"
  by (simp add: opendir_def resolve_def node_at_def disk_up_def)

lemma strtok_examples:
  "strtok ''uploadf /tmp/report.pdf ~S1/docs'' = Some (''uploadf'', ''/tmp/report.pdf ~S1/docs'')"
  "strtok ''/tmp/report.pdf ~S1/docs'' = Some (''/tmp/report.pdf'', ''~S1/docs'')"
  "strtok ''~S1/docs'' = Some (''~S1/docs'', [])"
  "strtok ''dispfnames ~S1/docs'' = Some (''dispfnames'', ''~S1/docs'')"
  by (simp_all add: strtok_def)

section \<open>Facts about rename and a transfer without faults\<close>

lemma walk_append:
  "walk fs cur (xs @ ys) = (case walk fs cur xs of Inl e \<Rightarrow> Inl e | Inr p \<Rightarrow> walk fs p ys)"
  by (induction xs arbitrary: cur) (auto split: option.splits node.splits)

lemma walk_start_dir:
  "walk fs p cs = Inr d \<Longrightarrow> node_at fs d = Some Dir \<Longrightarrow> node_at fs p = Some Dir"
  by (cases cs) (auto split: option.splits node.splits)

lemma walk_keeps_dirs:
  assumes keep: "\<forall>q. node_at fs q = Some Dir \<longrightarrow> node_at fs2 q = Some Dir"
  shows "walk fs cur cs = Inr d \<Longrightarrow> node_at fs d = Some Dir \<Longrightarrow> walk fs2 cur cs = Inr d"
proof (induction cs arbitrary: cur)
  case Nil
  then show ?case by simp
next
  case (Cons c cs)
  from walk_start_dir [OF Cons.prems] have d: "node_at fs cur = Some Dir" .
  with keep have d2: "node_at fs2 cur = Some Dir" by blast
  show ?case
  proof (cases "c = [] \<or> c = ''.''")
    case True
    with Cons d d2 show ?thesis by simp
  next
    case stay: False
    show ?thesis
    proof (cases "c = ''..''")
      case True
      with Cons d d2 stay show ?thesis by simp
    next
      case False
      with Cons.prems(1) d stay have w: "walk fs (cur @ [c]) cs = Inr d"
        by (auto split: option.splits)
      from walk_start_dir [OF w Cons.prems(2)] keep
      have "node_at fs2 (cur @ [c]) = Some Dir" by blast
      with Cons.IH [OF w Cons.prems(2)] d2 stay False show ?thesis by simp
    qed
  qed
qed

lemma map_of_move_file:
  "po \<noteq> pn \<Longrightarrow>
   map_of (move_file po pn fs) k =
     (if k = pn then map_of fs po else if k = po then None else map_of fs k)"
proof (induction fs arbitrary: k)
  case Nil
  then show ?case by (simp add: move_file_def)
next
  case (Cons a fs)
  obtain q n where a: "a = (q, n)" by (cases a)
  have step: "move_file po pn (a # fs) =
                (if q = pn then move_file po pn fs
                 else (if q = po then (pn, n) else (q, n)) # move_file po pn fs)"
    by (simp add: move_file_def a)
  show ?case
  proof (cases "q = pn")
    case True
    with Cons.IH [OF Cons.prems] Cons.prems a step show ?thesis by simp
  next
    case False
    show ?thesis
    proof (cases "q = po")
      case True
      with False Cons.IH [OF Cons.prems] Cons.prems a step show ?thesis by simp
    next
      case neither: False
      with False Cons.IH [OF Cons.prems] a step show ?thesis by simp
    qed
  qed
qed

lemma strip_empty_id: "cs \<noteq> [] \<Longrightarrow> last cs \<noteq> [] \<Longrightarrow> strip_empty cs = cs"
proof -
  assume "cs \<noteq> []" "last cs \<noteq> []"
  then obtain xs x where "cs = xs @ [x]" "x \<noteq> []"
    by (metis append_butlast_last_id)
  then show ?thesis by (simp add: strip_empty_def)
qed

lemma split_on_nonempty: "split_on d s \<noteq> []"
  by (induction s) (auto split: list.splits)

lemma rename_file_stat:
  assumes ren: "rename fs old new = (fs2, None)"
    and old: "stat fs old = Some (File r bs)"
  shows "stat fs2 new = Some (File r bs)"
proof -
  let ?cs = "split_on CHR ''/'' new"
  from old obtain po where po: "resolve fs old = Inr po" and npo: "node_at fs po = Some (File r bs)"
    by (auto simp: stat_def split: sum.splits)
  from npo have po_ne: "po \<noteq> []" by (auto simp: node_at_def)
  from ren po po_ne obtain d c where pl: "parent_leaf fs new = Inr (d, c)"
    by (auto simp: rename_def split: sum.splits prod.splits if_splits)
  from ren po po_ne pl npo have c: "c \<noteq> ''.''" "c \<noteq> ''..''" and lst: "last ?cs \<noteq> []"
    and nd: "node_at fs (d @ [c]) \<noteq> Some Dir"
    and fs2: "fs2 = (if po = d @ [c] then fs else move_file po (d @ [c]) fs)"
    by (auto simp: rename_def split: if_splits option.splits node.splits)
  from pl have new: "new \<noteq> []" by (auto simp: parent_leaf_def split: if_splits)
  have cs: "strip_empty ?cs = ?cs" using split_on_nonempty lst by (rule strip_empty_id)
  from pl new cs have w: "walk fs [] (butlast ?cs) = Inr d" and dd: "node_at fs d = Some Dir"
    and cl: "c = last ?cs"
    by (auto simp: parent_leaf_def Let_def split_on_nonempty
        split: sum.splits option.splits node.splits)
  have keep: "\<forall>q. node_at fs q = Some Dir \<longrightarrow> node_at fs2 q = Some Dir"
    using npo nd by (auto simp: fs2 node_at_def map_of_move_file split: if_splits)
  have target: "node_at fs2 (d @ [c]) = Some (File r bs)"
    using npo po_ne by (auto simp: fs2 node_at_def map_of_move_file)
  have w2: "walk fs2 [] (butlast ?cs) = Inr d" using keep w dd by (rule walk_keeps_dirs)
  have dd2: "node_at fs2 d = Some Dir" using keep dd by blast
  have "?cs = butlast ?cs @ [c]" using cl split_on_nonempty by simp
  then have "walk fs2 [] ?cs = walk fs2 d [c]"
    using walk_append [of fs2 "[]" "butlast ?cs" "[c]"] w2 by simp
  also have "\<dots> = Inr (d @ [c])"
    using dd2 target c lst cl by simp
  finally show ?thesis using new target by (simp add: stat_def resolve_def)
qed

lemma stat_mono:
  "map_of fs \<subseteq>\<^sub>m map_of fs' \<Longrightarrow> stat fs s = Some n \<Longrightarrow> stat fs' s = Some n"
proof -
  assume le: "map_of fs \<subseteq>\<^sub>m map_of fs'" and st: "stat fs s = Some n"
  from st obtain p where p: "resolve fs s = Inr p" and n: "node_at fs p = Some n"
    by (auto simp: stat_def split: sum.splits)
  from p have "resolve fs' s = Inr p"
    using walk_mono [OF le] by (auto simp: resolve_def split: if_splits)
  with node_at_mono [OF le n] show ?thesis by (simp add: stat_def)
qed

lemma create_directory_tree_extends:
  "create_directory_tree fs path = (fs', rc) \<Longrightarrow> map_of fs \<subseteq>\<^sub>m map_of fs'"
proof -
  assume c: "create_directory_tree fs path = (fs', rc)"
  then have "\<exists>pre rest. cdt_loop fs pre rest = (fs', rc)"
    unfolding create_directory_tree_def
    by (cases "snprintf MAX_PATH_LEN path") (auto simp del: cdt_loop.simps split: if_splits)
  then show ?thesis using cdt_loop_extends by blast
qed

lemma send_loop_ok:
  "sock_io w = [] \<Longrightarrow> file_io w = [] \<Longrightarrow> f = Fd (File r bs) off \<Longrightarrow>
   off + remaining = length bs \<Longrightarrow>
   send_loop w f remaining = (w\<lparr>sent := sent w @ drop off bs\<rparr>, 0)"
proof (induction w f remaining arbitrary: off rule: send_loop.induct)
  case (1 w f remaining)
  show ?case
  proof (cases "0 < remaining")
    case False
    with "1.prems" show ?thesis by (subst send_loop.simps) simp
  next
    case True
    let ?count = "if remaining < BUFFER_SIZE then remaining else BUFFER_SIZE"
    let ?data = "take ?count (drop off bs)"
    have cnt: "0 < ?count" "?count \<le> remaining" using True by (auto simp: BUFFER_SIZE_def)
    have len: "length ?data = ?count" using cnt "1.prems"(4) by auto
    have rd: "read_fd w f ?count = (w, Fd (File r bs) (off + ?count), int ?count, ?data)"
      using "1.prems"(1,2,3) len by simp
    have wr: "write_sock w ?data = (w\<lparr>sent := sent w @ ?data\<rparr>, int ?count)"
      using "1.prems"(1) len by (simp add: write_sock_def)
    have n: "\<not> int ?count \<le> 0" using cnt by simp
    have rec: "send_loop (w\<lparr>sent := sent w @ ?data\<rparr>) (Fd (File r bs) (off + ?count))
                 (remaining - nat (int ?count))
               = ((w\<lparr>sent := sent w @ ?data\<rparr>)
                    \<lparr>sent := sent (w\<lparr>sent := sent w @ ?data\<rparr>) @ drop (off + ?count) bs\<rparr>, 0)"
    proof (rule "1.IH" [OF True rd [symmetric] refl refl n wr [symmetric]])
      show "\<not> int ?count \<noteq> int ?count" by simp
      show "sock_io (w\<lparr>sent := sent w @ ?data\<rparr>) = []" using "1.prems"(1) by simp
      show "file_io (w\<lparr>sent := sent w @ ?data\<rparr>) = []" using "1.prems"(2) by simp
      show "Fd (File r bs) (off + ?count) = Fd (File r bs) (off + ?count)" by simp
      show "off + ?count + (remaining - nat (int ?count)) = length bs"
        using cnt "1.prems"(4) by simp
    qed
    have "?data @ drop (off + ?count) bs = drop off bs"
      by (metis add.commute append_take_drop_id drop_drop)
    with rec have "send_loop (w\<lparr>sent := sent w @ ?data\<rparr>) (Fd (File r bs) (off + ?count))
                 (remaining - nat (int ?count)) = (w\<lparr>sent := sent w @ drop off bs\<rparr>, 0)"
      by simp
    with True rd wr n show ?thesis
      by (subst send_loop.simps) (simp del: read_fd.simps)
  qed
qed


lemma upload_file_success:
  "upload_file e sv w filename dest_path = (w1, 0) \<Longrightarrow>
   \<exists>fs1 rc fs2. create_directory_tree (disk w) (s2_path e sv dest_path) = (fs1, rc)
     \<and> rename fs1 filename
           (snprintf MAX_PATH_LEN (s2_path e sv dest_path @ ''/'' @ basename filename))
         = (fs2, None)
     \<and> disk w1 = fs2"
  by (auto simp: upload_file_def disk_write_sock split: if_splits prod.splits option.splits)

lemma stat_disk0_staged: "stat disk0 ''/tmp/report.pdf'' = Some (File True ''%PDF-1.4'')"
  by (simp add: stat_def resolve_def node_at_def disk0_def)

lemma upload_world0_onto_name:
  "upload_file env0 S2 world0 ''/tmp/report.pdf'' ''~S1/docs/report.pdf''
     = (world0\<lparr>disk := disk_up2, sent := ''SUCCESS: PDF file stored in S2''\<rparr>, 0)"
proof -
  have p: "s2_path env0 S2 ''~S1/docs/report.pdf'' = ''/home/user/S2/docs/report.pdf''"
    by (simp add: s2_path_def snprintf_def MAX_PATH_LEN_def env0_fields)
  have c: "create_directory_tree disk0 ''/home/user/S2/docs/report.pdf''
             = (disk0 @ [([''home'', ''user'', ''S2''], Dir),
                         ([''home'', ''user'', ''S2'', ''docs''], Dir),
                         ([''home'', ''user'', ''S2'', ''docs'', ''report.pdf''], Dir)], 0)"
    by (simp add: create_directory_tree_def snprintf_def MAX_PATH_LEN_def mkdir_def
        parent_leaf_def strip_empty_def node_at_def disk0_def mkdir_failed_def)
  have b: "basename ''/tmp/report.pdf'' = ''report.pdf''"
    by (simp add: basename_def strip_slashes_def)
  have r: "rename (disk0 @ [([''home'', ''user'', ''S2''], Dir),
                         ([''home'', ''user'', ''S2'', ''docs''], Dir),
                         ([''home'', ''user'', ''S2'', ''docs'', ''report.pdf''], Dir)])
              ''/tmp/report.pdf'' ''/home/user/S2/docs/report.pdf/report.pdf'' = (disk_up2, None)"
    by (simp add: rename_def resolve_def parent_leaf_def strip_empty_def node_at_def disk0_def
        move_file_def disk_up2_def)
  have x: "strrchr ''/tmp/report.pdf'' CHR ''.'' = Some (owned_ext S2)"
    by (simp add: owned_ext_check suffix_def)
  show ?thesis
    by (simp add: upload_file_def x p c b snprintf_def MAX_PATH_LEN_def r
        write_sock_def world0_def del: strrchr.simps)
qed

lemma stat_disk_up2: "stat disk_up2 ''/home/user/S2/docs/report.pdf'' = Some Dir"
  by (simp add: stat_def resolve_def node_at_def disk_up2_def)

lemma strtok_examples2:
  "strtok ''uploadf /tmp/report.pdf ~S1/docs/report.pdf''
     = Some (''uploadf'', ''/tmp/report.pdf ~S1/docs/report.pdf'')"
  "strtok ''/tmp/report.pdf ~S1/docs/report.pdf'' = Some (''/tmp/report.pdf'', ''~S1/docs/report.pdf'')"
  "strtok ''~S1/docs/report.pdf'' = Some (''~S1/docs/report.pdf'', [])"
  "strtok ''downlf ~S1/docs/report.pdf'' = Some (''downlf'', ''~S1/docs/report.pdf'')"
  by (simp_all add: strtok_def)

section \<open>Upload of a file with a foreign extension\<close>

text \<open>
  C3. An upload whose source file name does not end in the owned extension returns
  \<open>-1\<close>, leaves the file system as it was (no directory created, no file moved), and
  does nothing but write the error text \<^verbatim>\<open>ERROR: S2 only handles PDF files\<close> (of which
  the program sends 31 bytes) to the socket.
\<close>

theorem upload_rejects_foreign_extension:
  assumes "\<not> suffix (owned_ext sv) filename"
  shows "snd (upload_file e sv w filename dest_path) = - 1
       \<and> disk (fst (upload_file e sv w filename dest_path)) = disk w
       \<and> fst (upload_file e sv w filename dest_path) =
           fst (write_sock w
             (take 31 (''ERROR: '' @ store_name sv @ '' only handles '' @ kind_name sv @ '' files'')))"
  using assms by (simp add: upload_file_def owned_ext_check disk_write_sock)

theorem upload_rejects_foreign_extension_witness:
  "\<not> suffix (owned_ext S2) ''/tmp/notes.txt''
   \<and> snd (upload_file env0 S2 world0 ''/tmp/notes.txt'' ''~S1/docs'') = - 1
   \<and> disk (fst (upload_file env0 S2 world0 ''/tmp/notes.txt'' ''~S1/docs'')) = disk0
   \<and> sent (fst (upload_file env0 S2 world0 ''/tmp/notes.txt'' ''~S1/docs''))
       = ''ERROR: S2 only handles PDF file''"
proof -
  have h: "\<not> suffix (owned_ext S2) ''/tmp/notes.txt''"
    by (simp add: suffix_def append_eq_Cons_conv Cons_eq_append_conv)
  show ?thesis
    using h upload_rejects_foreign_extension [OF h, of env0 world0 "''~S1/docs''"]
    by (simp add: write_sock_def world0_def)
qed

section \<open>Download of a path that is not a file\<close>

text \<open>
  C4, as stated, at a path that names a directory and so no file: \<^verbatim>\<open>stat\<close> and
  \<^verbatim>\<open>open\<close> succeed on the directory \<^verbatim>\<open>~/S2/docs\<close>, so \<^verbatim>\<open>download_file\<close> sends the
  size frame (the directory's \<^verbatim>\<open>st_size\<close>) before the first \<^verbatim>\<open>read\<close> fails and the
  error text follows.
\<close>

theorem download_directory_counterexample:
  "stat (disk world1) (s2_path env0 S2 ''~S1/docs'') = Some Dir
   \<and> sent (fst (download_file env0 S2 world1 ''~S1/docs''))
       = size_frame 4096 @ ''ERROR: File transfer failed''"
  by (simp add: download_file_def s2_path_docs world1_def stat_docs open_rdonly_def
      write_sock_def length_size_frame env0_fields BUFFER_SIZE_def send_loop.simps)

text \<open>
  C4, amended. When \<^verbatim>\<open>stat\<close> fails on the translated path (nothing exists there),
  \<^verbatim>\<open>download_file\<close> returns \<open>-1\<close> after a single write of the error text
  \<^verbatim>\<open>ERROR: PDF file not found in S2\<close> (30 bytes of it): what reaches the peer is a
  prefix of that text, no size frame and no payload; the file system is unchanged.
\<close>

theorem download_missing_no_frame:
  assumes "stat (disk w) (s2_path e sv filename) = None"
  shows "download_file e sv w filename =
           (fst (write_sock w
              (take 30 (''ERROR: '' @ kind_name sv @ '' file not found in '' @ store_name sv))),
            - 1)
       \<and> disk (fst (download_file e sv w filename)) = disk w
       \<and> (\<exists>k. sent (fst (download_file e sv w filename)) =
                sent w @
                take k (take 30 (''ERROR: '' @ kind_name sv @ '' file not found in '' @ store_name sv)))"
proof -
  let ?msg = "take 30 (''ERROR: '' @ kind_name sv @ '' file not found in '' @ store_name sv)"
  have d: "download_file e sv w filename = (fst (write_sock w ?msg), - 1)"
    using assms by (simp add: download_file_def)
  obtain k where k: "sent (fst (write_sock w ?msg)) = sent w @ take k ?msg"
    using sent_write_sock by blast
  have "disk (fst (download_file e sv w filename)) = disk w"
    by (simp only: d fst_conv disk_write_sock)
  moreover have "\<exists>k. sent (fst (download_file e sv w filename)) = sent w @ take k ?msg"
    using k by (simp only: d fst_conv) blast
  ultimately show ?thesis using d by blast
qed

theorem download_missing_no_frame_witness:
  "stat (disk world0) (s2_path env0 S2 ''~S1/docs/report.pdf'') = None
   \<and> download_file env0 S2 world0 ''~S1/docs/report.pdf''
       = (world0\<lparr>sent := ''ERROR: PDF file not found in S''\<rparr>, - 1)"
proof -
  have h: "stat (disk world0) (s2_path env0 S2 ''~S1/docs/report.pdf'') = None"
    by (simp add: s2_path_def env0_def snprintf_def MAX_PATH_LEN_def world0_def disk0_def
        stat_def resolve_def node_at_def)
  show ?thesis
    using h download_missing_no_frame [OF h] by (simp add: write_sock_def world0_def)
qed


section \<open>Path translation\<close>

text \<open>
  C6, as stated, at a suffix of 1013 characters on a node whose home is
  \<^verbatim>\<open>/home/user\<close> (the request \<^verbatim>\<open>downlf ~S1/aaa...\<close> fills the command buffer of 1023
  bytes): \<^verbatim>\<open>snprintf\<close> stores \<^verbatim>\<open>MAX_PATH_LEN - 1\<close> characters, so the local path is
  not the storage root followed by the suffix.
\<close>

theorem path_translation_truncates_counterexample:
  "s2_path env0 S2 (''~S1'' @ CHR ''/'' # replicate 1012 CHR ''a'')
     \<noteq> storage_root env0 S2 @ CHR ''/'' # replicate 1012 CHR ''a''"
proof
  assume "s2_path env0 S2 (''~S1'' @ CHR ''/'' # replicate 1012 CHR ''a'')
            = storage_root env0 S2 @ CHR ''/'' # replicate 1012 CHR ''a''"
  then have "length (s2_path env0 S2 (''~S1'' @ CHR ''/'' # replicate 1012 CHR ''a''))
               = length (storage_root env0 S2 @ CHR ''/'' # replicate 1012 CHR ''a'')"
    by (rule arg_cong)
  then show False
    by (simp add: s2_path_def storage_root_def snprintf_def MAX_PATH_LEN_def env0_fields)
qed

text \<open>
  C6, amended. The local path is a function of \<^verbatim>\<open>HOME\<close>, the server and the virtual
  path alone (\<open>s2_path\<close> and \<open>s2_path_list\<close> take no file system): for the virtual path
  \<^verbatim>\<open>~S1\<close> followed by \<open>S\<close> it is the first 1023 characters of the storage root
  followed by \<open>S\<close>, hence the storage root followed by \<open>S\<close> whenever that is shorter
  than \<^verbatim>\<open>MAX_PATH_LEN\<close>; for the bare \<^verbatim>\<open>~S1\<close> of a listing it is the storage root.
\<close>

theorem path_translation:
  "s2_path e sv (''~S1'' @ S) = take 1023 (storage_root e sv @ S)
   \<and> s2_path_list e sv (''~S1'' @ S) = take 1023 (storage_root e sv @ S)
   \<and> (length (storage_root e sv @ S) < MAX_PATH_LEN \<longrightarrow>
        s2_path e sv (''~S1'' @ S) = storage_root e sv @ S
      \<and> s2_path_list e sv (''~S1'' @ S) = storage_root e sv @ S)
   \<and> (length (storage_root e sv) < MAX_PATH_LEN \<longrightarrow>
        s2_path_list e sv ''~S1'' = storage_root e sv)"
  by (simp add: s2_path_def s2_path_list_def storage_root_def snprintf_def MAX_PATH_LEN_def)

theorem path_translation_witness:
  "length (storage_root env0 S2 @ ''/docs/report.pdf'') < MAX_PATH_LEN
   \<and> length (storage_root env0 S2) < MAX_PATH_LEN
   \<and> s2_path env0 S2 ''~S1/docs/report.pdf'' = ''/home/user/S2/docs/report.pdf''
   \<and> s2_path_list env0 S2 ''~S1/docs/report.pdf'' = ''/home/user/S2/docs/report.pdf''
   \<and> s2_path_list env0 S2 ''~S1'' = ''/home/user/S2''"
  using path_translation [of env0 S2 "''/docs/report.pdf''"]
  by (simp add: storage_root_def MAX_PATH_LEN_def env0_fields)

section \<open>Listing of a path that is not a directory\<close>

text \<open>
  C9. When the translated path of a \<^verbatim>\<open>dispfnames\<close> request does not exist or names
  something that is not a directory, \<^verbatim>\<open>display_filenames\<close> writes zero bytes and
  returns 0, whatever the depth bound: nothing is added to what the peer has
  received, and the file system is unchanged.
\<close>

theorem listing_of_missing_directory_is_empty:
  assumes "\<forall>st. stat (disk w) (s2_path_list e sv pathname) = Some st \<longrightarrow> \<not> S_ISDIR st"
  shows "display_filenames e sv depth w pathname = Some (fst (write_sock w []), 0)
       \<and> sent (fst (write_sock w [])) = sent w
       \<and> disk (fst (write_sock w [])) = disk w"
proof -
  have "sent (fst (write_sock w [])) = sent w"
    using sent_write_sock [of w "[]"] by auto
  moreover have "display_filenames e sv depth w pathname = Some (fst (write_sock w []), 0)"
    using assms by (auto simp: display_filenames_def split: option.splits)
  ultimately show ?thesis by (simp add: disk_write_sock)
qed

theorem listing_of_missing_directory_is_empty_witness:
  "stat (disk world0) (s2_path_list env0 S2 ''~S1/docs'') = None
   \<and> stat (disk world1) (s2_path_list env0 S2 ''~S1/docs/report.pdf'')
       = Some (File True ''%PDF-1.4'')
   \<and> display_filenames env0 S2 0 world0 ''~S1/docs'' = Some (world0, 0)
   \<and> display_filenames env0 S2 0 world1 ''~S1/docs/report.pdf'' = Some (world1, 0)"
proof -
  have p0: "s2_path_list env0 S2 ''~S1/docs'' = ''/home/user/S2/docs''"
    and p1: "s2_path_list env0 S2 ''~S1/docs/report.pdf'' = ''/home/user/S2/docs/report.pdf''"
    by (simp_all add: s2_path_list_def snprintf_def MAX_PATH_LEN_def env0_fields)
  have s0: "stat (disk world0) (s2_path_list env0 S2 ''~S1/docs'') = None"
    by (simp add: p0 world0_def stat_disk0_docs)
  have s1: "stat (disk world1) (s2_path_list env0 S2 ''~S1/docs/report.pdf'')
              = Some (File True ''%PDF-1.4'')"
    by (simp add: p1 world1_def stat_disk1_report)
  have h0: "\<forall>st. stat (disk world0) (s2_path_list env0 S2 ''~S1/docs'') = Some st \<longrightarrow> \<not> S_ISDIR st"
    by (simp add: s0)
  have h1: "\<forall>st. stat (disk world1) (s2_path_list env0 S2 ''~S1/docs/report.pdf'') = Some st
              \<longrightarrow> \<not> S_ISDIR st"
    by (simp add: s1)
  show ?thesis
    using s0 s1 listing_of_missing_directory_is_empty [OF h0, of 0]
      listing_of_missing_directory_is_empty [OF h1, of 0]
    by (simp add: write_sock_def world0_def world1_def)
qed

section \<open>The directory materializer\<close>

text \<open>
  C7. \<^verbatim>\<open>create_directory_tree\<close> is idempotent: run again on the file system it has
  produced, it leaves that file system as it is and returns the same value. The
  value is 0 or \<open>-1\<close>. It is 0 only if afterwards every path segment exists
  (\<^verbatim>\<open>mkdir\<close> on it reports \<^verbatim>\<open>EEXIST\<close>), whether the run created it or found it; it is
  \<open>-1\<close> only if \<^verbatim>\<open>mkdir\<close> fails on some segment with an error other than \<^verbatim>\<open>EEXIST\<close>.
\<close>

theorem create_directory_tree_idempotent:
  assumes "create_directory_tree fs path = (fs', rc)"
  shows "create_directory_tree fs' path = (fs', rc)
       \<and> (rc = 0 \<or> rc = - 1)
       \<and> (rc = 0 \<longrightarrow> (\<forall>s \<in> set (segments path). mkdir fs' s = (fs', Some EEXIST)))
       \<and> (rc = - 1 \<longrightarrow> (\<exists>s \<in> set (segments path). mkdir_failed (snd (mkdir fs' s))))"
proof (cases "snprintf MAX_PATH_LEN path")
  case Nil
  with assms have "cdt_loop fs [] [] = (fs', rc)" by (simp add: create_directory_tree_def)
  from cdt_loop_twice [OF this] Nil show ?thesis
    by (simp add: create_directory_tree_def segments_def)
next
  case (Cons c cs)
  show ?thesis
  proof (cases "c = CHR ''/''")
    case True
    with assms Cons have "cdt_loop fs [c] cs = (fs', rc)" by (simp add: create_directory_tree_def)
    from cdt_loop_twice [OF this] Cons True show ?thesis
      by (simp add: create_directory_tree_def segments_def)
  next
    case False
    with assms Cons have "cdt_loop fs [] (c # cs) = (fs', rc)"
      by (simp add: create_directory_tree_def)
    from cdt_loop_twice [OF this] Cons False show ?thesis
      by (simp add: create_directory_tree_def segments_def)
  qed
qed


theorem create_directory_tree_idempotent_witness:
  "create_directory_tree disk0 ''/home/user/S2/docs'' =
     (disk0 @ [([''home'', ''user'', ''S2''], Dir), ([''home'', ''user'', ''S2'', ''docs''], Dir)], 0)
   \<and> create_directory_tree
        (disk0 @ [([''home'', ''user'', ''S2''], Dir), ([''home'', ''user'', ''S2'', ''docs''], Dir)])
        ''/home/user/S2/docs'' =
     (disk0 @ [([''home'', ''user'', ''S2''], Dir), ([''home'', ''user'', ''S2'', ''docs''], Dir)], 0)
   \<and> create_directory_tree disk0 ''/tmp/report.pdf/x'' = (disk0, - 1)"
  using create_directory_tree_idempotent [OF cdt_disk0_docs] cdt_disk0_docs cdt_disk0_under_file
  by simp


section \<open>Failure in the middle of a download\<close>

text \<open>
  C10, as stated, at a file of 27 bytes whose first \<^verbatim>\<open>read\<close> fails: the size frame
  announces 27 bytes and the 27 bytes of the error text follow, so what the peer
  receives is a frame of exactly the announced size and nothing else.
\<close>

theorem download_failure_looks_like_frame_counterexample:
  "download_file env0 S2 (world2\<lparr>file_io := [Fail]\<rparr>) ''~S1/docs/tiny.pdf''
     = (world2\<lparr>sent := size_frame 27 @ ''ERROR: File transfer failed''\<rparr>, - 1)
   \<and> length ''ERROR: File transfer failed'' = 27"
proof -
  have n: "length ''%PDF-1.4 twenty-seven bytes'' = 27"
    by simp
  have "st_size env0 (File True ''%PDF-1.4 twenty-seven bytes'') = 27"
    by (simp only: st_size.simps n)
  then show ?thesis
    by (simp add: download_file_def s2_path_tiny world2_def stat_disk2_tiny open_rdonly_def
        write_sock_def length_size_frame BUFFER_SIZE_def send_loop.simps del: st_size.simps)
qed


text \<open>
  C10, amended. \<^verbatim>\<open>download_file\<close> on an existing readable regular file, the size
  frame written in full, then \<open>k\<close> rounds of the loop that succeed, with bytes still
  to send. If in the next round the \<^verbatim>\<open>read\<close> returns no bytes (\<open>n \<le> 0\<close>), or it returns
  bytes and the \<^verbatim>\<open>write\<close> of them is short (\<open>m \<noteq> n\<close>), then \<^verbatim>\<open>download_file\<close> returns
  \<open>-1\<close> and its last action is the write of \<^verbatim>\<open>ERROR: File transfer failed\<close> on the same
  connection, in the state \<open>w_mid\<close> that the failed call left; what had reached the peer
  by then is the size frame and the first \<open>j\<close> bytes of the file, \<open>j\<close> less than the
  announced size.
\<close>

theorem download_midstream_failure:
  assumes "stat (disk w) (s2_path e sv filename) = Some (File True bs)"
    and "write_sock w (size_frame (length bs)) = (w1, 8)"
    and "after_rounds k w1 (Fd (File True bs) 0) (length bs) = Some (wk, fk, remaining)"
    and "0 < remaining"
    and "read_fd wk fk (if remaining < BUFFER_SIZE then remaining else BUFFER_SIZE)
           = (wr, fr, n, buffer)"
    and "n \<le> 0 \<and> w_mid = wr \<or> 0 < n \<and> write_sock wr buffer = (w_mid, m) \<and> m \<noteq> n"
  shows "download_file e sv w filename
           = (fst (write_sock w_mid (take 27 ''ERROR: File transfer failed'')), - 1)
       \<and> (\<exists>j. j < length bs \<and> sent w_mid = sent w @ size_frame (length bs) @ take j bs)"
proof -
  let ?err = "take 27 ''ERROR: File transfer failed''"
  let ?count = "if remaining < BUFFER_SIZE then remaining else BUFFER_SIZE"
  have op: "open_rdonly (disk w) (s2_path e sv filename) = Some (Fd (File True bs) 0)"
    using assms(1) by (simp add: open_rdonly_def)
  have "download_file e sv w filename = send_loop w1 (Fd (File True bs) 0) (length bs)"
    using assms(1,2) op by (simp add: download_file_def)
  also have "\<dots> = send_loop wk fk remaining"
    using assms(3) by (rule after_rounds_send_loop)
  finally have d: "download_file e sv w filename = send_loop wk fk remaining" .
  from after_rounds_sent [OF assms(3)] obtain c
    where fk: "fk = Fd (File True bs) c" and sk: "sent wk = sent w1 @ take c bs"
      and c: "c + remaining = length bs" by auto
  have s1: "sent w1 = sent w @ size_frame (length bs)"
    using assms(2) write_sock_full(1) [of w "size_frame (length bs)" w1]
    by (simp add: length_size_frame)
  have sr: "sent wr = sent wk" using assms(5) fk read_fd_file(1) by blast
  from assms(6) show ?thesis
  proof
    assume "n \<le> 0 \<and> w_mid = wr"
    then have n: "n \<le> 0" and mid: "w_mid = wr" by simp_all
    from assms(4,5) n have "send_loop wk fk remaining = (fst (write_sock wr ?err), - 1)"
      by (simp add: send_loop.simps [of wk fk remaining])
    moreover have "c < length bs" using c assms(4) by simp
    moreover have "sent wr = sent w @ size_frame (length bs) @ take c bs"
      using sr sk s1 by simp
    ultimately show ?thesis using d mid by auto
  next
    assume "0 < n \<and> write_sock wr buffer = (w_mid, m) \<and> m \<noteq> n"
    then have n0: "0 < n" and wr: "write_sock wr buffer = (w_mid, m)" and mn: "m \<noteq> n"
      by simp_all
    from assms(4,5) n0 wr mn
    have r: "send_loop wk fk remaining = (fst (write_sock w_mid ?err), - 1)"
      by (simp add: send_loop.simps [of wk fk remaining])
    from assms(5) n0 have n: "n = int (length buffer)"
      and buf: "buffer = take (length buffer) (drop c bs)"
      and le: "length buffer \<le> ?count"
      using read_fd_file(2) [of wk True bs c ?count wr fr n buffer] fk by auto
    from n0 n have ne: "buffer \<noteq> []" by auto
    from le have le': "length buffer \<le> remaining" by (auto split: if_splits)
    from write_sock_short [OF wr _ ne] mn n obtain i where i: "i < length buffer"
      and s2: "sent w_mid = sent wr @ take i buffer" by auto
    have "take i buffer = take i (drop c bs)"
      using i by (subst buf) (simp add: min_def)
    moreover have "take (c + i) bs = take c bs @ take i (drop c bs)"
      by (simp add: take_add)
    ultimately have "sent w_mid = sent w @ size_frame (length bs) @ take (c + i) bs"
      using s2 sr sk s1 by simp
    moreover have "c + i < length bs" using i le' c by simp
    ultimately show ?thesis using d r by auto
  qed
qed

theorem download_midstream_failure_witness:
  "stat (disk (world2\<lparr>file_io := [Partial 10, Fail]\<rparr>)) (s2_path env0 S2 ''~S1/docs/tiny.pdf'')
     = Some (File True ''%PDF-1.4 twenty-seven bytes'')
   \<and> write_sock (world2\<lparr>file_io := [Partial 10, Fail]\<rparr>)
         (size_frame (length ''%PDF-1.4 twenty-seven bytes''))
       = (world2\<lparr>sent := size_frame 27, file_io := [Partial 10, Fail]\<rparr>, 8)
   \<and> after_rounds 1 (world2\<lparr>sent := size_frame 27, file_io := [Partial 10, Fail]\<rparr>)
         (Fd (File True ''%PDF-1.4 twenty-seven bytes'') 0)
         (length ''%PDF-1.4 twenty-seven bytes'')
       = Some (world2\<lparr>sent := size_frame 27 @ ''%PDF-1.4 t'', file_io := [Fail]\<rparr>,
               Fd (File True ''%PDF-1.4 twenty-seven bytes'') 10, 17)
   \<and> read_fd (world2\<lparr>sent := size_frame 27 @ ''%PDF-1.4 t'', file_io := [Fail]\<rparr>)
         (Fd (File True ''%PDF-1.4 twenty-seven bytes'') 10)
         17
       = (world2\<lparr>sent := size_frame 27 @ ''%PDF-1.4 t''\<rparr>,
          Fd (File True ''%PDF-1.4 twenty-seven bytes'') 10, - 1, [])
   \<and> download_file env0 S2 (world2\<lparr>file_io := [Partial 10, Fail]\<rparr>) ''~S1/docs/tiny.pdf''
       = (world2\<lparr>sent := size_frame 27 @ ''%PDF-1.4 t'' @ ''ERROR: File transfer failed''\<rparr>, - 1)
   \<and> write_sock (world2\<lparr>sock_io := [Full, Partial 3]\<rparr>)
         (size_frame (length ''%PDF-1.4 twenty-seven bytes''))
       = (world2\<lparr>sent := size_frame 27, sock_io := [Partial 3]\<rparr>, 8)
   \<and> read_fd (world2\<lparr>sent := size_frame 27, sock_io := [Partial 3]\<rparr>)
         (Fd (File True ''%PDF-1.4 twenty-seven bytes'') 0)
         27
       = (world2\<lparr>sent := size_frame 27, sock_io := [Partial 3]\<rparr>,
          Fd (File True ''%PDF-1.4 twenty-seven bytes'') 27, 27, ''%PDF-1.4 twenty-seven bytes'')
   \<and> write_sock (world2\<lparr>sent := size_frame 27, sock_io := [Partial 3]\<rparr>)
         ''%PDF-1.4 twenty-seven bytes''
       = (world2\<lparr>sent := size_frame 27 @ ''%PD''\<rparr>, 3)
   \<and> download_file env0 S2 (world2\<lparr>sock_io := [Full, Partial 3]\<rparr>) ''~S1/docs/tiny.pdf''
       = (world2\<lparr>sent := size_frame 27 @ ''%PD'' @ ''ERROR: File transfer failed''\<rparr>, - 1)"
proof -
  let ?bs = "''%PDF-1.4 twenty-seven bytes''"
  let ?f = "Fd (File True ?bs)"
  let ?wa = "world2\<lparr>file_io := [Partial 10, Fail]\<rparr>"
  let ?wa1 = "world2\<lparr>sent := size_frame 27, file_io := [Partial 10, Fail]\<rparr>"
  let ?wak = "world2\<lparr>sent := size_frame 27 @ ''%PDF-1.4 t'', file_io := [Fail]\<rparr>"
  let ?war = "world2\<lparr>sent := size_frame 27 @ ''%PDF-1.4 t''\<rparr>"
  let ?wb = "world2\<lparr>sock_io := [Full, Partial 3]\<rparr>"
  let ?wb1 = "world2\<lparr>sent := size_frame 27, sock_io := [Partial 3]\<rparr>"
  let ?wbm = "world2\<lparr>sent := size_frame 27 @ ''%PD''\<rparr>"
  have n: "length ?bs = 27"
    by simp
  have a1: "stat (disk ?wa) (s2_path env0 S2 ''~S1/docs/tiny.pdf'') = Some (File True ?bs)"
    by (simp add: s2_path_tiny world2_def stat_disk2_tiny)
  have a2: "write_sock ?wa (size_frame (length ?bs)) = (?wa1, 8)"
    by (simp only: n) (simp add: write_sock_def world2_def length_size_frame)
  have a3: "after_rounds 1 ?wa1 (?f 0) (length ?bs) = Some (?wak, ?f 10, 17)"
    by (simp only: n) (simp add: world2_def write_sock_def BUFFER_SIZE_def)
  have a4: "read_fd ?wak (?f 10) 17 = (?war, ?f 10, - 1, [])"
    by (simp add: world2_def)
  have a4': "read_fd ?wak (?f 10) (if 17 < BUFFER_SIZE then 17 else BUFFER_SIZE)
               = (?war, ?f 10, - 1, [])"
    using a4 by (simp add: BUFFER_SIZE_def)
  have b1: "stat (disk ?wb) (s2_path env0 S2 ''~S1/docs/tiny.pdf'') = Some (File True ?bs)"
    by (simp add: s2_path_tiny world2_def stat_disk2_tiny)
  have b2: "write_sock ?wb (size_frame (length ?bs)) = (?wb1, 8)"
    by (simp only: n) (simp add: write_sock_def world2_def length_size_frame)
  have b3: "after_rounds 0 ?wb1 (?f 0) (length ?bs) = Some (?wb1, ?f 0, 27)"
    by (simp only: n) simp
  have b4: "read_fd ?wb1 (?f 0) 27 = (?wb1, ?f 27, 27, ?bs)"
    by (simp add: world2_def)
  have b4': "read_fd ?wb1 (?f 0) (if 27 < BUFFER_SIZE then 27 else BUFFER_SIZE)
               = (?wb1, ?f 27, 27, ?bs)"
    using b4 by (simp add: BUFFER_SIZE_def)
  have b5: "write_sock ?wb1 ?bs = (?wbm, 3)"
    by (simp add: write_sock_def world2_def)
  have ea: "fst (write_sock ?war (take 27 ''ERROR: File transfer failed''))
              = world2\<lparr>sent := size_frame 27 @ ''%PDF-1.4 t'' @ ''ERROR: File transfer failed''\<rparr>"
    by (simp add: write_sock_def world2_def)
  have eb: "fst (write_sock ?wbm (take 27 ''ERROR: File transfer failed''))
              = world2\<lparr>sent := size_frame 27 @ ''%PD'' @ ''ERROR: File transfer failed''\<rparr>"
    by (simp add: write_sock_def world2_def)
  have da: "download_file env0 S2 ?wa ''~S1/docs/tiny.pdf''
              = (fst (write_sock ?war (take 27 ''ERROR: File transfer failed'')), - 1)"
    using download_midstream_failure [OF a1 a2 a3 _ a4', of ?war 0] by simp
  have db: "download_file env0 S2 ?wb ''~S1/docs/tiny.pdf''
              = (fst (write_sock ?wbm (take 27 ''ERROR: File transfer failed'')), - 1)"
    using download_midstream_failure [OF b1 b2 b3 _ b4', of ?wbm 3] b5 by simp
  from a1 a2 a3 a4 b2 b4 b5 da [unfolded ea] db [unfolded eb] show ?thesis
    by (intro conjI)
qed

section \<open>The archive of download_tar\<close>

text \<open>
  C5. The archive \<^verbatim>\<open>/tmp/pdffiles.tar\<close> is unlinked only on the path that returns 0.
  When the size frame goes out and the first \<^verbatim>\<open>sendfile\<close> fails, \<^verbatim>\<open>download_tar\<close>
  returns \<open>-1\<close> and the archive is still there; when nothing fails, it is gone.
\<close>

theorem download_tar_keeps_archive_after_failed_transfer:
  "snd (download_tar env0 (world1\<lparr>sock_io := [Full, Fail]\<rparr>)) = - 1
   \<and> stat (disk (fst (download_tar env0 (world1\<lparr>sock_io := [Full, Fail]\<rparr>)))) ''/tmp/pdffiles.tar''
       = Some (File True ''TAR'')
   \<and> snd (download_tar env0 world1) = 0
   \<and> stat (disk (fst (download_tar env0 world1))) ''/tmp/pdffiles.tar'' = None"
  by (simp add: download_tar_def system_tar_def env0_fields world1_def disk1_def
      parent_leaf_def strip_empty_def node_at_def stat_def resolve_def open_rdonly_def
      write_sock_def unlink_def snprintf_def MAX_PATH_LEN_def)


section \<open>What the listing emits\<close>





section \<open>The lines of the listing\<close>

text \<open>
  C1, as stated, at the scenario of the specification with the destination directory
  \<^verbatim>\<open>~S1/docs\<close>: after the upload, \<^verbatim>\<open>dispfnames ~S1/docs\<close> replies \<^verbatim>\<open>~S1/report.pdf\<close> and a
  newline; the path is relative to the directory listed, not to the storage root.
\<close>

theorem listing_after_upload_counterexample:
  "handle_client env0 S2 1 world0 (Some ''uploadf /tmp/report.pdf ~S1/docs'')
     = Some (world0\<lparr>disk := disk_up, sent := ''SUCCESS: PDF file stored in S2''\<rparr>)
   \<and> handle_client env0 S2 1 (world0\<lparr>disk := disk_up\<rparr>) (Some ''dispfnames ~S1/docs'')
     = Some (world0\<lparr>disk := disk_up, sent := ''~S1/report.pdf'' @ [CHR 0x0A]\<rparr>)
   \<and> ''~S1/report.pdf'' @ [CHR 0x0A] \<noteq> ''~S1/docs/report.pdf'' @ [CHR 0x0A]"
proof -
  have up: "handle_client env0 S2 1 world0 (Some ''uploadf /tmp/report.pdf ~S1/docs'')
     = Some (world0\<lparr>disk := disk_up, sent := ''SUCCESS: PDF file stored in S2''\<rparr>)"
    by (simp add: handle_client_def BUFFER_SIZE_def strtok_examples upload_world0_docs)
  have l: "list_pdf_files S2 disk_up (Suc 0) ''/home/user/S2/docs'' [] []
             = Some (''~S1/report.pdf'' @ [CHR 0x0A])"
    by (simp add: opendir_disk_up add_line_def strncat_def BUFFER_SIZE_def output_path_def
        new_relative_path_def snprintf_def MAX_PATH_LEN_def)
  have "display_filenames env0 S2 1 (world0\<lparr>disk := disk_up\<rparr>) ''~S1/docs''
          = Some (world0\<lparr>disk := disk_up, sent := ''~S1/report.pdf'' @ [CHR 0x0A]\<rparr>, 0)"
    using l opendir_stat [OF opendir_disk_up]
    by (simp add: display_filenames_def s2_path_list_examples world0_def write_sock_def
        del: list_pdf_files.simps)
  then have "handle_client env0 S2 1 (world0\<lparr>disk := disk_up\<rparr>) (Some ''dispfnames ~S1/docs'')
     = Some (world0\<lparr>disk := disk_up, sent := ''~S1/report.pdf'' @ [CHR 0x0A]\<rparr>)"
    by (simp add: handle_client_def BUFFER_SIZE_def strtok_examples)
  with up show ?thesis by simp
qed

text \<open>
  C1, amended. For a regular file \<open>name\<close> with the owned extension in the directory
  that the request names, and a depth that covers the nesting of the directories
  below it (no call is made at level \<open>depth\<close>): \<^verbatim>\<open>display_filenames\<close> returns 0,
  and what it writes is the first \<^verbatim>\<open>BUFFER_SIZE - 1\<close> bytes of a block of lines of which
  one is the \<^verbatim>\<open>output_path\<close> of \<open>name\<close> under the empty relative path. When the
  listing has not filled the buffer, the reply is that block, and the line is
  \<^verbatim>\<open>~S1/\<close> followed by \<open>name\<close>: the path relative to the requested directory.
\<close>

theorem listing_line_is_relative_to_request:
  assumes "opendir (disk w) (s2_path_list e sv pathname) = Some ents"
    and "(name, DT_REG) \<in> set ents" and "suffix (owned_ext sv) name"
    and "\<forall>base rel. \<not> reached_at (disk w) (s2_path_list e sv pathname) depth base rel"
  shows "\<exists>file_list lines1 lines2.
           display_filenames e sv depth w pathname = Some (fst (write_sock w file_list), 0)
         \<and> file_list = take (BUFFER_SIZE - 1)
                         (join_lines (lines1 @ [output_path [] name] @ lines2))
         \<and> (length file_list < BUFFER_SIZE - 1 \<longrightarrow>
              file_list = join_lines (lines1 @ [''~S1/'' @ name] @ lines2))"
proof -
  let ?p = "s2_path_list e sv pathname"
  let ?N = "BUFFER_SIZE - 1"
  have st: "stat (disk w) ?p = Some Dir" using assms(1) by (rule opendir_stat)
  from list_pdf_files_total [OF assms(4)]
  obtain file_list where l: "list_pdf_files sv (disk w) depth ?p [] [] = Some file_list"
    by blast
  with st have d: "display_filenames e sv depth w pathname = Some (fst (write_sock w file_list), 0)"
    by (simp add: display_filenames_def)
  from l obtain k where "depth = Suc k" by (cases depth) auto
  with l assms(1) have r: "readdir_loop sv (disk w) k ?p [] ents [] = Some file_list" by simp
  from readdir_loop_emits [OF assms(1) reached_at.top r _ subset_refl assms(2,3)]
  obtain ls1 ls2
    where f: "file_list = take ?N ([] @ join_lines (ls1 @ [output_path [] name] @ ls2))"
    by auto
  then have f': "file_list = take ?N (join_lines (ls1 @ [output_path [] name] @ ls2))"
    by simp
  have "length file_list < ?N \<longrightarrow> file_list = join_lines (ls1 @ [''~S1/'' @ name] @ ls2)"
  proof
    assume short: "length file_list < ?N"
    with f' have whole: "file_list = join_lines (ls1 @ [output_path [] name] @ ls2)"
      using take_short [of ?N "join_lines (ls1 @ [output_path [] name] @ ls2)"] by simp
    have "length (output_path [] name) \<le> length (join_lines (ls1 @ [output_path [] name] @ ls2))"
      by (simp add: join_lines_append join_lines_Cons)
    with short whole have "length (output_path [] name) < MAX_PATH_LEN - 1"
      by (simp add: BUFFER_SIZE_def MAX_PATH_LEN_def)
    then have "output_path [] name = ''~S1/'' @ name" by (rule output_path_untruncated)
    with whole show "file_list = join_lines (ls1 @ [''~S1/'' @ name] @ ls2)" by simp
  qed
  with d f' show ?thesis by blast
qed

theorem listing_line_is_relative_to_request_witness:
  "opendir (disk world_tree) (s2_path_list env0 S2 ''~S1'')
     = Some [(''.'', DT_DIR), (''..'', DT_DIR), (''top.pdf'', DT_REG), (''docs'', DT_DIR)]
   \<and> suffix (owned_ext S2) ''top.pdf''
   \<and> display_filenames env0 S2 2 world_tree ''~S1''
       = Some (world_tree\<lparr>sent := ''~S1/top.pdf'' @ [CHR 0x0A] @ ''~S1/docs/report.pdf'' @ [CHR 0x0A]\<rparr>, 0)
   \<and> (\<exists>lines1 lines2. ''~S1/top.pdf'' @ [CHR 0x0A] @ ''~S1/docs/report.pdf'' @ [CHR 0x0A]
                         = join_lines (lines1 @ [''~S1/top.pdf''] @ lines2))"
proof -
  let ?reply = "''~S1/top.pdf'' @ [CHR 0x0A] @ ''~S1/docs/report.pdf'' @ [CHR 0x0A]"
  have o: "opendir (disk world_tree) (s2_path_list env0 S2 ''~S1'')
     = Some [(''.'', DT_DIR), (''..'', DT_DIR), (''top.pdf'', DT_REG), (''docs'', DT_DIR)]"
    by (simp add: s2_path_list_examples world_tree_def opendir_disk_tree)
  have m: "(''top.pdf'', DT_REG)
             \<in> set [(''.'', DT_DIR), (''..'', DT_DIR), (''top.pdf'', DT_REG), (''docs'', DT_DIR)]"
    by simp
  have x: "suffix (owned_ext S2) ''top.pdf''"
    by (simp add: suffix_def)
  have none: "\<forall>base rel. \<not> reached_at (disk world_tree) (s2_path_list env0 S2 ''~S1'') 2 base rel"
    using reached_disk_tree_2 by (simp add: s2_path_list_examples world_tree_def)
  from listing_line_is_relative_to_request [OF o m x none]
  obtain file_list lines1 lines2
    where d: "display_filenames env0 S2 2 world_tree ''~S1''
                = Some (fst (write_sock world_tree file_list), 0)"
      and s: "length file_list < BUFFER_SIZE - 1 \<longrightarrow>
                file_list = join_lines (lines1 @ [''~S1/'' @ ''top.pdf''] @ lines2)"
    by blast
  have "fst (write_sock world_tree file_list) = world_tree\<lparr>sent := file_list\<rparr>"
    by (simp add: write_sock_def world_tree_def)
  with d display_disk_tree_root have "world_tree\<lparr>sent := file_list\<rparr> = world_tree\<lparr>sent := ?reply\<rparr>"
    by simp
  then have fl: "file_list = ?reply"
    by (simp add: world_tree_def)
  then have "length file_list < BUFFER_SIZE - 1"
    by (simp add: BUFFER_SIZE_def)
  with s fl have "?reply = join_lines (lines1 @ [''~S1/top.pdf''] @ lines2)"
    by simp
  then have "\<exists>lines1 lines2. ?reply = join_lines (lines1 @ [''~S1/top.pdf''] @ lines2)"
    by blast
  with o x display_disk_tree_root show ?thesis by (intro conjI)
qed

section \<open>Upload, then download\<close>

text \<open>
  C2, as stated, at the scenario of the specification: \<^verbatim>\<open>uploadf /tmp/report.pdf
  ~S1/docs/report.pdf\<close> on the empty PDF node replies success, but the destination
  is taken as a directory: \<^verbatim>\<open>~/S2/docs/report.pdf\<close> is created as a directory and
  the file is moved to \<^verbatim>\<open>~/S2/docs/report.pdf/report.pdf\<close>. The download of the same
  virtual path then finds the directory, sends its size and fails at the first
  \<^verbatim>\<open>read\<close>: the peer receives a size frame and the error text, not the file.
\<close>

theorem download_after_upload_counterexample:
  "handle_client env0 S2 1 world0 (Some ''uploadf /tmp/report.pdf ~S1/docs/report.pdf'')
     = Some (world0\<lparr>disk := disk_up2, sent := ''SUCCESS: PDF file stored in S2''\<rparr>)
   \<and> stat disk_up2 ''/home/user/S2/docs/report.pdf'' = Some Dir
   \<and> handle_client env0 S2 1 (world0\<lparr>disk := disk_up2\<rparr>) (Some ''downlf ~S1/docs/report.pdf'')
     = Some (world0\<lparr>disk := disk_up2, sent := size_frame 4096 @ ''ERROR: File transfer failed''\<rparr>)
   \<and> size_frame 4096 @ ''ERROR: File transfer failed'' \<noteq> size_frame 8 @ ''%PDF-1.4''"
proof -
  have ne: "size_frame 4096 @ ''ERROR: File transfer failed'' \<noteq> size_frame 8 @ ''%PDF-1.4''"
  proof
    assume "size_frame 4096 @ ''ERROR: File transfer failed'' = size_frame 8 @ ''%PDF-1.4''"
    then have "length (size_frame 4096 @ ''ERROR: File transfer failed'')
                 = length (size_frame 8 @ ''%PDF-1.4'')"
      by (rule arg_cong)
    then show False by (simp add: length_size_frame)
  qed
  have p: "s2_path env0 S2 ''~S1/docs/report.pdf'' = ''/home/user/S2/docs/report.pdf''"
    by (simp add: s2_path_def snprintf_def MAX_PATH_LEN_def env0_fields)
  have up: "handle_client env0 S2 1 world0 (Some ''uploadf /tmp/report.pdf ~S1/docs/report.pdf'')
     = Some (world0\<lparr>disk := disk_up2, sent := ''SUCCESS: PDF file stored in S2''\<rparr>)"
    by (simp add: handle_client_def BUFFER_SIZE_def strtok_examples2 upload_world0_onto_name)
  have "download_file env0 S2 (world0\<lparr>disk := disk_up2\<rparr>) ''~S1/docs/report.pdf''
          = (world0\<lparr>disk := disk_up2, sent := size_frame 4096 @ ''ERROR: File transfer failed''\<rparr>, - 1)"
    by (simp add: download_file_def p world0_def stat_disk_up2 open_rdonly_def
        write_sock_def length_size_frame env0_fields BUFFER_SIZE_def send_loop.simps)
  then have "handle_client env0 S2 1 (world0\<lparr>disk := disk_up2\<rparr>) (Some ''downlf ~S1/docs/report.pdf'')
     = Some (world0\<lparr>disk := disk_up2, sent := size_frame 4096 @ ''ERROR: File transfer failed''\<rparr>)"
    by (simp add: handle_client_def BUFFER_SIZE_def strtok_examples2)
  with up stat_disk_up2 ne show ?thesis by simp
qed

text \<open>
  C2, amended. The destination of an upload is a directory, and the file keeps its
  base name. For a readable regular file with bytes \<open>bs\<close>: after a successful upload
  to \<open>dest_path\<close>, the file is at the storage root followed by the suffix of
  \<open>dest_path\<close>, a slash and the base name, and a download of \<open>dest_path\<close>, a slash
  and the base name, on a later connection without transfer faults, sends the size
  frame of \<open>length bs\<close> and then exactly \<open>bs\<close>, and returns 0. (The local path is
  required to fit \<^verbatim>\<open>MAX_PATH_LEN\<close>.)
\<close>

theorem upload_then_download_roundtrip:
  assumes staged: "stat (disk w) filename = Some (File True bs)"
    and up: "upload_file e sv w filename dest_path = (w1, 0)"
    and marker: "3 \<le> length dest_path"
    and fits: "length (storage_root e sv @ drop 3 dest_path @ ''/'' @ basename filename) < MAX_PATH_LEN"
    and later: "disk w2 = disk w1" "sock_io w2 = []" "file_io w2 = []"
  shows "stat (disk w1) (storage_root e sv @ drop 3 dest_path @ ''/'' @ basename filename)
           = Some (File True bs)
       \<and> download_file e sv w2 (dest_path @ ''/'' @ basename filename)
           = (w2\<lparr>sent := sent w2 @ size_frame (length bs) @ bs\<rparr>, 0)"
proof -
  let ?dir = "s2_path e sv dest_path"
  let ?full = "storage_root e sv @ drop 3 dest_path @ ''/'' @ basename filename"
  have dir: "?dir = storage_root e sv @ drop 3 dest_path"
    using fits by (simp add: s2_path_def storage_root_def snprintf_def)
  have full: "snprintf MAX_PATH_LEN (?dir @ ''/'' @ basename filename) = ?full"
    using fits by (simp add: dir snprintf_def)
  have req: "s2_path e sv (dest_path @ ''/'' @ basename filename) = ?full"
    using fits marker by (simp add: s2_path_def storage_root_def snprintf_def)
  from upload_file_success [OF up] obtain fs1 rc fs2
    where cdt: "create_directory_tree (disk w) ?dir = (fs1, rc)"
      and ren: "rename fs1 filename ?full = (fs2, None)" and d1: "disk w1 = fs2"
    unfolding full by blast
  have "stat fs1 filename = Some (File True bs)"
    using create_directory_tree_extends [OF cdt] staged by (rule stat_mono)
  with ren have "stat fs2 ?full = Some (File True bs)" by (rule rename_file_stat)
  moreover note d1
  ultimately have st: "stat (disk w1) ?full = Some (File True bs)" by simp
  then have st2: "stat (disk w2) ?full = Some (File True bs)" using later(1) by simp
  then have op: "open_rdonly (disk w2) ?full = Some (Fd (File True bs) 0)"
    by (simp add: open_rdonly_def)
  have fr: "write_sock w2 (size_frame (length bs))
              = (w2\<lparr>sent := sent w2 @ size_frame (length bs)\<rparr>, 8)"
    using later(2) by (simp add: write_sock_def length_size_frame)
  have "send_loop (w2\<lparr>sent := sent w2 @ size_frame (length bs)\<rparr>) (Fd (File True bs) 0) (length bs)
          = ((w2\<lparr>sent := sent w2 @ size_frame (length bs)\<rparr>)
               \<lparr>sent := sent (w2\<lparr>sent := sent w2 @ size_frame (length bs)\<rparr>) @ drop 0 bs\<rparr>, 0)"
    using later(2,3) by (intro send_loop_ok) simp_all
  then have "download_file e sv w2 (dest_path @ ''/'' @ basename filename)
           = (w2\<lparr>sent := sent w2 @ size_frame (length bs) @ bs\<rparr>, 0)"
    unfolding download_file_def req st2 op fr option.case st_size.simps prod.case by simp
  with st show ?thesis by simp
qed

theorem upload_then_download_roundtrip_witness:
  "stat (disk world0) ''/tmp/report.pdf'' = Some (File True ''%PDF-1.4'')
   \<and> upload_file env0 S2 world0 ''/tmp/report.pdf'' ''~S1/docs''
       = (world0\<lparr>disk := disk_up, sent := ''SUCCESS: PDF file stored in S2''\<rparr>, 0)
   \<and> stat disk_up ''/home/user/S2/docs/report.pdf'' = Some (File True ''%PDF-1.4'')
   \<and> download_file env0 S2 (world0\<lparr>disk := disk_up\<rparr>) ''~S1/docs/report.pdf''
       = (world0\<lparr>disk := disk_up, sent := size_frame 8 @ ''%PDF-1.4''\<rparr>, 0)"
proof -
  have b: "basename ''/tmp/report.pdf'' = ''report.pdf''"
    by (simp add: basename_def strip_slashes_def)
  have h1: "stat (disk world0) ''/tmp/report.pdf'' = Some (File True ''%PDF-1.4'')"
    by (simp add: world0_def stat_disk0_staged)
  have h3: "3 \<le> length ''~S1/docs''" by simp
  have h4: "length (storage_root env0 S2 @ drop 3 ''~S1/docs'' @ ''/'' @ basename ''/tmp/report.pdf'')
              < MAX_PATH_LEN"
    by (simp add: b storage_root_def env0_fields MAX_PATH_LEN_def)
  have h5: "disk (world0\<lparr>disk := disk_up\<rparr>)
              = disk (world0\<lparr>disk := disk_up, sent := ''SUCCESS: PDF file stored in S2''\<rparr>)"
    "sock_io (world0\<lparr>disk := disk_up\<rparr>) = []" "file_io (world0\<lparr>disk := disk_up\<rparr>) = []"
    by (simp_all add: world0_def)
  have n: "length ''%PDF-1.4'' = 8" by simp
  note rt = upload_then_download_roundtrip [OF h1 upload_world0_docs h3 h4 h5, unfolded n]
  from rt h1 upload_world0_docs show ?thesis
    by (simp add: b storage_root_def env0_fields world0_def)
qed


end
